theory Spec2Isabelle
  imports Complex_Main "HOL-Library.Word"
begin

unbundle bit_operations_syntax

section \<open>Flowgraph profile support (fgprofile.cpp)\<close>

text \<open>
  A shallow embedding of \<^verbatim>\<open>src/coreclr/jit/fgprofile.cpp\<close>. A block weight
  (\<^verbatim>\<open>BasicBlock::weight_t\<close>, a C float) is modelled by the real number it denotes,
  and the arithmetic of the source on weights by the exact operation followed by rounding
  to the nearest binary32 number. Unsigned 32-bit quantities are \<open>32 word\<close>. A failing
  \<^verbatim>\<open>assert\<close> (checked builds) or \<^verbatim>\<open>noway_assert\<close> is an error value.
\<close>

type_synonym weight_t = real

subsection \<open>Floating-point arithmetic\<close>

text \<open>
  \<open>roundBinary p k x\<close> is the number nearest to \<open>x\<close> among those with \<open>p\<close> significant
  bits that are multiples of \<open>1 / 2 ^ k\<close>, a tie going to the even significand (the
  default rounding of IEEE 754). \<open>bitLength\<close> is the number of bits of a natural number;
  \<open>s\<close> is the number of low bits of the magnitude, taken in units of \<open>1 / 2 ^ k\<close>, that do
  not fit into \<open>p\<close> bits. Binary32 has 24 significant bits and the smallest positive
  (subnormal) number \<open>1 / 2 ^ 149\<close>; binary64 has 53 bits and \<open>1 / 2 ^ 1074\<close>. The exponent
  is not bounded above: a result beyond the largest finite number, which C turns into an
  infinity, stays the rounded real number here, and there is no NaN.
\<close>

fun bitLength :: "nat \<Rightarrow> nat" where
  "bitLength n = (if n = 0 then 0 else Suc (bitLength (n div 2)))"

definition roundHalfEven :: "real \<Rightarrow> int" where
  "roundHalfEven q =
     (let n = \<lfloor>q\<rfloor>; r = q - of_int n
      in if r < 1 / 2 then n else if 1 / 2 < r then n + 1 else if even n then n else n + 1)"

definition roundBinary :: "nat \<Rightarrow> nat \<Rightarrow> real \<Rightarrow> real" where
  "roundBinary p k x =
     (let s = bitLength (nat \<lfloor>\<bar>x\<bar> * 2 ^ k\<rfloor>) - p
      in sgn x * of_int (roundHalfEven (\<bar>x\<bar> * 2 ^ k / 2 ^ s)) * 2 ^ s / 2 ^ k)"

definition float32 :: "real \<Rightarrow> real" where
  "float32 = roundBinary 24 149"

definition float64 :: "real \<Rightarrow> real" where
  "float64 = roundBinary 53 1074"

text \<open>\<^verbatim>\<open>a + b\<close> and \<^verbatim>\<open>a - b\<close> on two \<^verbatim>\<open>weight_t\<close> values.\<close>

definition fadd :: "weight_t \<Rightarrow> weight_t \<Rightarrow> weight_t" where
  "fadd a b = float32 (a + b)"

definition fsub :: "weight_t \<Rightarrow> weight_t \<Rightarrow> weight_t" where
  "fsub a b = float32 (a - b)"

datatype jit_error =
    AssertFailed        \<comment> \<open>\<^verbatim>\<open>assert(...)\<close> of a checked build\<close>
  | NowayAssert         \<comment> \<open>\<^verbatim>\<open>noway_assert(...)\<close>, fatal in every build\<close>
  | NullDeref           \<comment> \<open>a null block or edge pointer is dereferenced\<close>
  | OutOfRange          \<comment> \<open>a vector is indexed past its end\<close>

text \<open>Modelled from the spec: \<^verbatim>\<open>BB_ZERO_WEIGHT\<close> and \<^verbatim>\<open>BB_MAX_WEIGHT\<close> are
  declared in block.h, which is not part of the sources; the spec calls the latter the
  largest representable weight, which for a C float is \<^verbatim>\<open>FLT_MAX\<close>.\<close>

definition BB_ZERO_WEIGHT :: weight_t where
  "BB_ZERO_WEIGHT = 0"

definition BB_MAX_WEIGHT :: weight_t where
  "BB_MAX_WEIGHT = 340282346638528859811704183484516925440"

subsection \<open>Edges and their checked setters\<close>

record flowList =
  flBlock :: nat                 \<comment> \<open>\<^verbatim>\<open>getBlock()\<close>: the source block, by position\<close>
  flEdgeWeightMin :: weight_t
  flEdgeWeightMax :: weight_t

text \<open>
  The setters return \<^verbatim>\<open>result\<close>, whether they stored \<^verbatim>\<open>true\<close> through
  \<^verbatim>\<open>wbUsedSlop\<close> (a null pointer just drops that store), and the updated edge.
  \<^verbatim>\<open>assertAdjusted\<close> is the block of assertions both setters run when the
  slop branch returns true.
\<close>

definition assertAdjusted ::
  "weight_t \<Rightarrow> flowList \<Rightarrow> jit_error + (bool \<times> bool \<times> flowList)" where
  "assertAdjusted newWeight e =
     (if flEdgeWeightMax e = 0 \<or> (newWeight \<le> flEdgeWeightMax e \<and> newWeight \<ge> flEdgeWeightMin e)
      then Inr (True, True, e)
      else Inl AssertFailed)"

definition setEdgeWeightMinChecked ::
  "weight_t \<Rightarrow> weight_t \<Rightarrow> flowList \<Rightarrow> jit_error + (bool \<times> bool \<times> flowList)" where
  "setEdgeWeightMinChecked newWeight slop e =
     (if newWeight \<le> flEdgeWeightMax e \<and> newWeight \<ge> flEdgeWeightMin e then
        Inr (True, False, e\<lparr>flEdgeWeightMin := newWeight\<rparr>)
      else if slop > 0 then
        (if flEdgeWeightMax e < newWeight then
           (if newWeight \<le> fadd (flEdgeWeightMax e) slop then
              assertAdjusted newWeight
                (if flEdgeWeightMax e \<noteq> 0
                 then e\<lparr>flEdgeWeightMin := flEdgeWeightMax e, flEdgeWeightMax := newWeight\<rparr>
                 else e)
            else Inr (False, False, e))
         else if \<not> flEdgeWeightMin e > newWeight then Inl AssertFailed
         else if fadd newWeight slop \<ge> flEdgeWeightMin e then
           (if flEdgeWeightMax e = 0 then Inl AssertFailed
            else assertAdjusted newWeight (e\<lparr>flEdgeWeightMin := newWeight\<rparr>))
         else Inr (False, False, e))
      else Inr (False, False, e))"

definition setEdgeWeightMaxChecked ::
  "weight_t \<Rightarrow> weight_t \<Rightarrow> flowList \<Rightarrow> jit_error + (bool \<times> bool \<times> flowList)" where
  "setEdgeWeightMaxChecked newWeight slop e =
     (if newWeight \<ge> flEdgeWeightMin e \<and> newWeight \<le> flEdgeWeightMax e then
        Inr (True, False, e\<lparr>flEdgeWeightMax := newWeight\<rparr>)
      else if slop > 0 then
        (if flEdgeWeightMax e < newWeight then
           (if newWeight \<le> fadd (flEdgeWeightMax e) slop then
              assertAdjusted newWeight
                (if flEdgeWeightMax e \<noteq> 0 then e\<lparr>flEdgeWeightMax := newWeight\<rparr> else e)
            else Inr (False, False, e))
         else if \<not> flEdgeWeightMin e > newWeight then Inl AssertFailed
         else if fadd newWeight slop \<ge> flEdgeWeightMin e then
           (if flEdgeWeightMax e = 0 then Inl AssertFailed
            else assertAdjusted newWeight
                   (e\<lparr>flEdgeWeightMax := flEdgeWeightMin e, flEdgeWeightMin := newWeight\<rparr>))
         else Inr (False, False, e))
      else Inr (False, False, e))"

definition setEdgeWeights :: "weight_t \<Rightarrow> weight_t \<Rightarrow> flowList \<Rightarrow> jit_error + flowList" where
  "setEdgeWeights theMinWeight theMaxWeight e =
     (if theMinWeight \<le> theMaxWeight
      then Inr (e\<lparr>flEdgeWeightMin := theMinWeight, flEdgeWeightMax := theMaxWeight\<rparr>)
      else Inl AssertFailed)"

text \<open>The range invariant of an edge, and the post-condition the setters assert.\<close>

definition edgeRangeOK :: "flowList \<Rightarrow> bool" where
  "edgeRangeOK e = (0 \<le> flEdgeWeightMin e \<and> flEdgeWeightMin e \<le> flEdgeWeightMax e)"

definition inRangeOrZeroMax :: "weight_t \<Rightarrow> flowList \<Rightarrow> bool" where
  "inRangeOrZeroMax newWeight e =
     (flEdgeWeightMax e = 0 \<or> (flEdgeWeightMin e \<le> newWeight \<and> newWeight \<le> flEdgeWeightMax e))"

definition setterKeepsRange ::
  "(jit_error + (bool \<times> bool \<times> flowList)) \<Rightarrow> weight_t \<Rightarrow> bool" where
  "setterKeepsRange res newWeight =
     (case res of
        Inl _ \<Rightarrow> False
      | Inr (result, _, e') \<Rightarrow>
          edgeRangeOK e' \<and> (if result then inRangeOrZeroMax newWeight e' else True))"

subsection \<open>Profile data lookup\<close>

datatype PgoInstrumentationKind =
    BasicBlockIntCount
  | TypeHandleHistogramCount
  | TypeHandleHistogramTypeHandle

record PgoInstrumentationSchema =
  Offset :: nat
  InstrumentationKind :: PgoInstrumentationKind
  ILOffset :: "32 word"
  Count :: "32 word"
  Other :: "32 word"

text \<open>
  The part of the compiler object the lookup reads. \<^verbatim>\<open>fgPgoSchema\<close> is \<open>None\<close> for a
  null pointer (with \<^verbatim>\<open>fgPgoSchemaCount\<close> zero), else the \<^verbatim>\<open>fgPgoSchemaCount\<close> entries. \<^verbatim>\<open>fgPgoData\<close> gives, for a
  byte offset, the \<^verbatim>\<open>uint32_t\<close> stored there. \<^verbatim>\<open>fgStressBBProf\<close> is the stress seed
  of a checked build; a release build has no such seed and behaves as seed 0.
\<close>

record PgoState =
  compIsForImportOnly :: bool
  fgPgoSchema :: "PgoInstrumentationSchema list option"
  fgPgoData :: "nat \<Rightarrow> 32 word"
  compMethodHash :: "32 word"
  fgStressBBProf :: "32 word"

definition fgPgoSchemaEntries :: "PgoState \<Rightarrow> PgoInstrumentationSchema list" where
  "fgPgoSchemaEntries c = (case fgPgoSchema c of None \<Rightarrow> [] | Some entries \<Rightarrow> entries)"

definition fgHaveProfileData :: "PgoState \<Rightarrow> bool" where
  "fgHaveProfileData c =
     (if compIsForImportOnly c then False else fgPgoSchema c \<noteq> None)"

text \<open>The stress weights are products and sums of integers below 31, at most
  \<open>22 * 28 * 30\<close>: binary32 represents every value involved, so the float operations of the
  source are exact here.\<close>

definition stressWeight :: "32 word \<Rightarrow> 32 word \<Rightarrow> weight_t" where
  "stressWeight hash offset =
     (let weight =
        (if hash mod 3 = 0 then 0
         else if hash mod 11 = 0
           then real (unat (hash mod 23)) * real (unat (hash mod 29)) * real (unat (hash mod 31))
         else real (unat (hash mod 17)) * real (unat (hash mod 19)))
      in if offset = 0 \<and> weight = 0 then 1 + real (unat (hash mod 5)) else weight)"

fun schemaLookup :: "PgoInstrumentationSchema list \<Rightarrow> 32 word \<Rightarrow> PgoInstrumentationSchema option" where
  "schemaLookup [] offset = None"
| "schemaLookup (s # rest) offset =
     (if InstrumentationKind s = BasicBlockIntCount \<and> ILOffset s = offset
      then Some s else schemaLookup rest offset)"

text \<open>The result is \<open>None\<close> for \<^verbatim>\<open>false\<close> and \<open>Some w\<close> for \<^verbatim>\<open>true\<close> with
  \<open>w\<close> stored through \<^verbatim>\<open>weightWB\<close>. The counter is a \<^verbatim>\<open>uint32_t\<close> and the cast
  \<^verbatim>\<open>(BasicBlock::weight_t)\<close> rounds it to binary32.\<close>

definition fgGetProfileWeightForBasicBlock :: "PgoState \<Rightarrow> 32 word \<Rightarrow> weight_t option" where
  "fgGetProfileWeightForBasicBlock c offset =
     (let hashSeed = fgStressBBProf c in
      if hashSeed \<noteq> 0 then
        Some (stressWeight ((compMethodHash c * hashSeed) XOR (offset * 1027)) offset)
      else if \<not> fgHaveProfileData c then None
      else
        (case schemaLookup (fgPgoSchemaEntries c) offset of
           Some s \<Rightarrow> Some (float32 (real (unat (fgPgoData c (Offset s)))))
         | None \<Rightarrow> Some 0))"

subsection \<open>Trees, statements and basic blocks\<close>

text \<open>
  The IR is declared in gentree.h, which is not part of the sources; the model keeps what
  fgprofile.cpp reads, writes and builds. A call carries its header (a record) and its
  operands: the \<^verbatim>\<open>this\<close> argument and the other arguments.
\<close>

datatype var_types = TYP_VOID | TYP_INT | TYP_REF | TYP_I_IMPL

datatype gtCallTypes = CT_USER_FUNC | CT_HELPER | CT_INDIRECT

datatype CorInfoHelpFunc = CORINFO_HELP_CLASSPROFILE | CORINFO_HELP_BBT_FCN_ENTER

datatype genTreeOps = GT_COMMA | GT_ASG | GT_ADD | GT_NE | GT_COLON | GT_QMARK | GT_NOP

record ClassProfileCandidateInfo =
  ilOffset :: "32 word"
  probeIndex :: nat
  stubAddr :: nat

record GenTreeCallInfo =
  gtCallType :: gtCallTypes
  IsVirtualStub :: bool
  IsVirtualVtable :: bool
  gtCallHelper :: "CorInfoHelpFunc option"
  gtStubCallStubAddr :: nat
  gtClassProfileCandidateInfo :: "ClassProfileCandidateInfo option"
  gtCallThisArgType :: var_types    \<comment> \<open>\<^verbatim>\<open>gtCallThisArg->GetNode()->TypeGet()\<close>\<close>

datatype GenTree =
    GT_CALL GenTreeCallInfo "GenTree option" "GenTree list"
  | GT_LCL_VAR nat
  | GT_CNS_INT int
  | GT_IND_ICON_BBC nat          \<comment> \<open>\<^verbatim>\<open>gtNewIndOfIconHandleNode(TYP_INT, addr, GTF_ICON_BBC_PTR, false)\<close>\<close>
  | GT_METHOD_HANDLE bool        \<comment> \<open>the method's handle: by token (ReadyToRun) or embedded\<close>
  | GT_OPER genTreeOps "GenTree list"
  | GT_LEAF nat                  \<comment> \<open>any other node without operands\<close>

definition IsVirtual :: "GenTreeCallInfo \<Rightarrow> bool" where
  "IsVirtual ci = (IsVirtualStub ci \<or> IsVirtualVtable ci)"

datatype BBjumpKinds =
    BBJ_EHFINALLYRET | BBJ_EHFILTERRET | BBJ_EHCATCHRET | BBJ_THROW | BBJ_RETURN
  | BBJ_NONE | BBJ_ALWAYS | BBJ_CALLFINALLY | BBJ_COND | BBJ_SWITCH

datatype BBflag =
    BBF_IMPORTED | BBF_INTERNAL | BBF_RUN_RARELY | BBF_PROF_WEIGHT | BBF_HAS_CLASS_PROFILE

text \<open>
  Blocks are referred to by their position in the \<^verbatim>\<open>bbNext\<close> chain that starts at
  \<^verbatim>\<open>fgFirstBB\<close> (position 0); a null block pointer is \<open>None\<close>. \<^verbatim>\<open>bbRefs\<close> is what
  \<^verbatim>\<open>countOfInEdges()\<close> returns (block.h is not part of the sources).
\<close>

record BasicBlock =
  bbWeight :: weight_t
  bbFlags :: "BBflag set"
  bbJumpKind :: BBjumpKinds
  bbJumpDest :: "nat option"
  bbRefs :: nat
  bbPreds :: "flowList list"
  bbCodeOffs :: "32 word"
  bbStmts :: "GenTree list"

definition hasProfileWeight :: "BasicBlock \<Rightarrow> bool" where
  "hasProfileWeight b = (BBF_PROF_WEIGHT \<in> bbFlags b)"

definition countOfInEdges :: "BasicBlock \<Rightarrow> nat" where
  "countOfInEdges b = bbRefs b"

text \<open>Modelled from the spec: \<^verbatim>\<open>setBBProfileWeight\<close> is declared in block.h, which is
  not part of the sources; by the spec a weight assigned from the method call count is a
  profile weight, so the flag is set with the weight.\<close>

definition setBBProfileWeight :: "weight_t \<Rightarrow> BasicBlock \<Rightarrow> BasicBlock" where
  "setBBProfileWeight weight b =
     b\<lparr>bbFlags := insert BBF_PROF_WEIGHT (bbFlags b), bbWeight := weight\<rparr>"

definition setRunRarely :: "BasicBlock \<Rightarrow> BasicBlock" where
  "setRunRarely b =
     (if bbWeight b = 0 then b\<lparr>bbFlags := insert BBF_RUN_RARELY (bbFlags b)\<rparr>
      else b\<lparr>bbFlags := bbFlags b - {BBF_RUN_RARELY}\<rparr>)"

definition bbNext :: "BasicBlock list \<Rightarrow> nat \<Rightarrow> nat option" where
  "bbNext bbs i = (if Suc i < length bbs then Some (Suc i) else None)"

subsection \<open>Sequencing of fallible steps\<close>

definition bindE :: "(jit_error + 'a) \<Rightarrow> ('a \<Rightarrow> jit_error + 'b) \<Rightarrow> jit_error + 'b" where
  "bindE m f = (case m of Inl err \<Rightarrow> Inl err | Inr x \<Rightarrow> f x)"

fun foldE :: "('a \<Rightarrow> 's \<Rightarrow> jit_error + 's) \<Rightarrow> 'a list \<Rightarrow> 's \<Rightarrow> jit_error + 's" where
  "foldE f [] s = Inr s"
| "foldE f (x # xs) s = bindE (f x s) (foldE f xs)"

text \<open>Partial correctness: what holds of the result when a step returns one.\<close>

definition post :: "(jit_error + 'a) \<Rightarrow> ('a \<Rightarrow> bool) \<Rightarrow> bool" where
  "post m Q = (case m of Inl err \<Rightarrow> True | Inr y \<Rightarrow> Q y)"

definition blockAt :: "BasicBlock list \<Rightarrow> nat \<Rightarrow> jit_error + BasicBlock" where
  "blockAt bbs i = (if i < length bbs then Inr (bbs ! i) else Inl NullDeref)"

subsection \<open>Inlinee profile scale\<close>

text \<open>\<^verbatim>\<open>profileScaleFactor\<close> is a \<^verbatim>\<open>double\<close>: the source converts the call-site weight
  to \<^verbatim>\<open>double\<close> and divides in \<^verbatim>\<open>double\<close>, which rounds the quotient to binary64. The
  comparisons before are comparisons of two floats.\<close>

datatype ProfileScaleState = UNDETERMINED | KNOWN | UNAVAILABLE

record InlineInfo =
  profileScaleState :: ProfileScaleState
  profileScaleFactor :: real
  iciBlock :: BasicBlock

definition fgComputeProfileScale :: "bool \<Rightarrow> PgoState \<Rightarrow> InlineInfo \<Rightarrow> jit_error + InlineInfo" where
  "fgComputeProfileScale compIsForInlining c impInlineInfo =
     (if \<not> compIsForInlining then Inl AssertFailed
      else if profileScaleState impInlineInfo \<noteq> UNDETERMINED then Inr impInlineInfo
      else
        (let callSiteBlock = iciBlock impInlineInfo in
         if \<not> hasProfileWeight callSiteBlock
         then Inr (impInlineInfo\<lparr>profileScaleState := UNAVAILABLE\<rparr>)
         else
           (let callSiteWeight = bbWeight callSiteBlock in
            if callSiteWeight = 0
            then Inr (impInlineInfo\<lparr>profileScaleState := UNAVAILABLE\<rparr>)
            else if \<not> fgHaveProfileData c
            then Inr (impInlineInfo\<lparr>profileScaleState := UNAVAILABLE\<rparr>)
            else
              (case fgGetProfileWeightForBasicBlock c 0 of
                 None \<Rightarrow> Inr (impInlineInfo\<lparr>profileScaleState := UNAVAILABLE\<rparr>)
               | Some calleeWeight \<Rightarrow>
                   if calleeWeight < callSiteWeight
                   then Inr (impInlineInfo\<lparr>profileScaleState := UNAVAILABLE\<rparr>)
                   else Inr (impInlineInfo\<lparr>profileScaleFactor := float64 (callSiteWeight / calleeWeight),
                                               profileScaleState := KNOWN\<rparr>)))))"

subsection \<open>Missing block weights and the called count\<close>

text \<open>``Does this block flow into only one other block'': the source writes this test out
  twice, for \<^verbatim>\<open>bSrc\<close> and for \<^verbatim>\<open>bDst\<close>.\<close>

definition bOnlyNextOf :: "BasicBlock list \<Rightarrow> nat \<Rightarrow> nat option" where
  "bOnlyNextOf bbs i =
     (if bbJumpKind (bbs ! i) = BBJ_NONE then bbNext bbs i
      else if bbJumpKind (bbs ! i) = BBJ_ALWAYS then bbJumpDest (bbs ! i)
      else None)"

text \<open>The weight found through the only predecessor (\<^verbatim>\<open>bDst->countOfInEdges() == 1\<close>).\<close>

definition weightFromOnlyPred :: "BasicBlock list \<Rightarrow> nat \<Rightarrow> weight_t \<Rightarrow> jit_error + weight_t" where
  "weightFromOnlyPred bbs bDst newWeight =
     (if countOfInEdges (bbs ! bDst) = 1 then
        (case bbPreds (bbs ! bDst) of
           [] \<Rightarrow> Inl NullDeref
         | edge # _ \<Rightarrow>
             bindE (blockAt bbs (flBlock edge)) (\<lambda>bSrc.
               if bOnlyNextOf bbs (flBlock edge) = Some bDst \<and> hasProfileWeight bSrc
               then Inr (bbWeight bSrc) else Inr newWeight))
      else Inr newWeight)"

text \<open>The weight found through the only successor, when \<^verbatim>\<open>bDst\<close> is its only
  predecessor.\<close>

definition weightFromOnlyNext :: "BasicBlock list \<Rightarrow> nat \<Rightarrow> weight_t \<Rightarrow> jit_error + weight_t" where
  "weightFromOnlyNext bbs bDst newWeight =
     (case bOnlyNextOf bbs bDst of
        None \<Rightarrow> Inr newWeight
      | Some n \<Rightarrow>
          bindE (blockAt bbs n) (\<lambda>bOnlyNext.
            (case bbPreds bOnlyNext of
               [] \<Rightarrow> Inr newWeight
             | edge # _ \<Rightarrow>
                 if countOfInEdges bOnlyNext = 1 then
                   (if flBlock edge = bDst then Inr (bbWeight bOnlyNext) else Inl NowayAssert)
                 else Inr newWeight)))"

record MissingWeightsState =
  mwBlocks :: "BasicBlock list"
  mwChanged :: bool
  mwModified :: bool
  mwReturnWeight :: weight_t

definition missingWeightForBlock :: "nat \<Rightarrow> MissingWeightsState \<Rightarrow> jit_error + MissingWeightsState" where
  "missingWeightForBlock bDst s =
     bindE
       (if \<not> hasProfileWeight (mwBlocks s ! bDst) \<and> bbPreds (mwBlocks s ! bDst) \<noteq> [] then
          bindE (weightFromOnlyPred (mwBlocks s) bDst BB_MAX_WEIGHT) (\<lambda>w1.
          bindE (weightFromOnlyNext (mwBlocks s) bDst w1) (\<lambda>newWeight.
            if newWeight \<noteq> BB_MAX_WEIGHT \<and> bbWeight (mwBlocks s ! bDst) \<noteq> newWeight then
              Inr (s\<lparr>mwChanged := True, mwModified := True,
                     mwBlocks := (mwBlocks s)
                       [bDst := setRunRarely ((mwBlocks s ! bDst)\<lparr>bbWeight := newWeight\<rparr>)]\<rparr>)
            else Inr s))
        else Inr s)
       (\<lambda>s1.
          if hasProfileWeight (mwBlocks s1 ! bDst) \<and>
             (bbJumpKind (mwBlocks s1 ! bDst) = BBJ_RETURN \<or> bbJumpKind (mwBlocks s1 ! bDst) = BBJ_THROW)
          then Inr (s1\<lparr>mwReturnWeight := fadd (mwReturnWeight s1) (bbWeight (mwBlocks s1 ! bDst))\<rparr>)
          else Inr s1)"

definition missingWeightsPass :: "MissingWeightsState \<Rightarrow> jit_error + MissingWeightsState" where
  "missingWeightsPass s =
     foldE missingWeightForBlock [0..<length (mwBlocks s)] (s\<lparr>mwChanged := False, mwReturnWeight := 0\<rparr>)"

function missingWeightsLoop :: "nat \<Rightarrow> MissingWeightsState \<Rightarrow> jit_error + MissingWeightsState" where
  "missingWeightsLoop iterations s =
     bindE (missingWeightsPass s) (\<lambda>s1.
       if mwChanged s1 \<and> Suc iterations < 10 then missingWeightsLoop (Suc iterations) s1
       else Inr s1)"
  by pat_completeness auto
termination
  by (relation "measure (\<lambda>(iterations, s). 10 - iterations)") auto

text \<open>Returns the blocks with their new weights and \<^verbatim>\<open>returnWeight\<close>.\<close>

definition fgComputeMissingBlockWeights :: "BasicBlock list \<Rightarrow> jit_error + (BasicBlock list \<times> weight_t)" where
  "fgComputeMissingBlockWeights bbs =
     bindE (missingWeightsLoop 0 \<lparr>mwBlocks = bbs, mwChanged = False, mwModified = False, mwReturnWeight = 0\<rparr>)
       (\<lambda>s. Inr (mwBlocks s, mwReturnWeight s))"

text \<open>The first block that is not \<^verbatim>\<open>BBF_INTERNAL\<close>, walking \<^verbatim>\<open>bbNext\<close> from the given
  position; running off the end of the chain dereferences a null pointer.\<close>

function skipInternal :: "BasicBlock list \<Rightarrow> nat \<Rightarrow> jit_error + nat" where
  "skipInternal bbs i =
     (if i < length bbs then
        (if BBF_INTERNAL \<in> bbFlags (bbs ! i) then skipInternal bbs (Suc i) else Inr i)
      else Inl NullDeref)"
  by pat_completeness auto
termination
  by (relation "measure (\<lambda>(bbs, i). length bbs - i)") auto

record CalledCountState =
  fgBBs :: "BasicBlock list"
  fgCalledCount :: weight_t

text \<open>\<^verbatim>\<open>usingProfileWeights\<close> is \<^verbatim>\<open>fgIsUsingProfileWeights()\<close> and \<^verbatim>\<open>firstBBisScratch\<close>
  is \<^verbatim>\<open>fgFirstBBisScratch()\<close>; neither function is part of the sources.\<close>

definition fgComputeCalledCount ::
  "bool \<Rightarrow> bool \<Rightarrow> weight_t \<Rightarrow> CalledCountState \<Rightarrow> jit_error + CalledCountState" where
  "fgComputeCalledCount usingProfileWeights firstBBisScratch returnWeight c =
     (if \<not> usingProfileWeights then Inl AssertFailed
      else
        bindE (skipInternal (fgBBs c) 0) (\<lambda>firstILBlock.
          if firstILBlock \<noteq> 0 \<and> \<not> hasProfileWeight (fgBBs c ! firstILBlock) then Inl AssertFailed
          else
            bindE
              (if countOfInEdges (fgBBs c ! firstILBlock) = 1 \<or> returnWeight = 0 then
                 (if \<not> hasProfileWeight (fgBBs c ! firstILBlock) then Inl AssertFailed
                  else Inr (c\<lparr>fgCalledCount := bbWeight (fgBBs c ! firstILBlock)\<rparr>))
               else Inr (c\<lparr>fgCalledCount := returnWeight\<rparr>))
              (\<lambda>c1.
                 if firstBBisScratch then
                   Inr (c1\<lparr>fgBBs := (fgBBs c1)
                          [0 := setRunRarely (setBBProfileWeight (fgCalledCount c1) (fgBBs c1 ! 0))]\<rparr>)
                 else Inr c1)))"

subsection \<open>Edge weights\<close>

text \<open>
  An edge is addressed by its destination block and its position in that block's
  \<^verbatim>\<open>bbPreds\<close> list. \<^verbatim>\<open>assignOK\<close> is the local flag of one edge's processing; after
  \<^verbatim>\<open>goto EARLY_EXIT\<close> (\<^verbatim>\<open>inconsistentProfileData\<close> set) no further loop body runs.
\<close>

record EdgeWeightState =
  ewBlocks :: "BasicBlock list"
  assignOK :: bool
  usedSlop :: bool
  inconsistentProfileData :: bool
  hasIncompleteEdgeWeights :: bool
  numEdges :: nat
  goodEdgeCountCurrent :: nat
  goodEdgeCountPrevious :: nat

definition edgeAt :: "BasicBlock list \<Rightarrow> nat \<Rightarrow> nat \<Rightarrow> flowList" where
  "edgeAt bbs d k = bbPreds (bbs ! d) ! k"

definition putEdge :: "BasicBlock list \<Rightarrow> nat \<Rightarrow> nat \<Rightarrow> flowList \<Rightarrow> BasicBlock list" where
  "putEdge bbs d k e = bbs[d := (bbs ! d)\<lparr>bbPreds := (bbPreds (bbs ! d))[k := e]\<rparr>]"

text \<open>\<^verbatim>\<open>assignOK &= edge->setEdgeWeight...Checked(w, slop, &usedSlop)\<close> on edge \<open>(d, k)\<close>.\<close>

definition applyChecked ::
  "(flowList \<Rightarrow> jit_error + (bool \<times> bool \<times> flowList)) \<Rightarrow> nat \<Rightarrow> nat \<Rightarrow>
   EdgeWeightState \<Rightarrow> jit_error + EdgeWeightState" where
  "applyChecked setter d k s =
     bindE (setter (edgeAt (ewBlocks s) d k)) (\<lambda>(result, wbUsedSlop, e').
       Inr (s\<lparr>ewBlocks := putEdge (ewBlocks s) d k e',
              assignOK := (assignOK s \<and> result),
              usedSlop := (usedSlop s \<or> wbUsedSlop)\<rparr>))"

definition leaveIfNotOK :: "EdgeWeightState \<Rightarrow> EdgeWeightState" where
  "leaveIfNotOK s = (if \<not> assignOK s then s\<lparr>inconsistentProfileData := True\<rparr> else s)"

text \<open>Modelled from the spec: \<^verbatim>\<open>fgGetPredForBlock(block, blockPred)\<close> is defined outside
  the sources; it is the pred-lookup of the edge of \<^verbatim>\<open>block\<close> that comes from
  \<^verbatim>\<open>blockPred\<close>, null when there is none.\<close>

fun fgGetPredForBlock :: "flowList list \<Rightarrow> nat \<Rightarrow> nat option" where
  "fgGetPredForBlock [] blockPred = None"
| "fgGetPredForBlock (e # es) blockPred =
     (if flBlock e = blockPred then Some 0 else map_option Suc (fgGetPredForBlock es blockPred))"

text \<open>The weight of \<^verbatim>\<open>bDst\<close> that its in-edges have to add up to: the called count is
  subtracted at \<^verbatim>\<open>fgFirstBB\<close>.\<close>

definition bDstWeightOf :: "weight_t \<Rightarrow> BasicBlock list \<Rightarrow> nat \<Rightarrow> weight_t" where
  "bDstWeightOf calledCount bbs bDst =
     (if bDst = 0 then fsub (bbWeight (bbs ! bDst)) calledCount else bbWeight (bbs ! bDst))"

text \<open>The body of the first loop, for the edge \<open>k\<close> into \<^verbatim>\<open>bDst\<close>, in its three
  steps. \<^verbatim>\<open>GetSlopFraction\<close> is declared in block.h and is a parameter here.\<close>

text \<open>``If the bSrc or bDst blocks do not have exact profile weights then we must reset any
  values that they currently have''.\<close>

definition resetUnprofiled :: "BasicBlock \<Rightarrow> nat \<Rightarrow> nat \<Rightarrow> EdgeWeightState \<Rightarrow> jit_error + EdgeWeightState" where
  "resetUnprofiled bSrc bDst k s =
     (if \<not> hasProfileWeight bSrc \<or> \<not> hasProfileWeight (ewBlocks s ! bDst) then
        bindE (setEdgeWeights BB_ZERO_WEIGHT BB_MAX_WEIGHT (edgeAt (ewBlocks s) bDst k))
          (\<lambda>e'. Inr (s\<lparr>ewBlocks := putEdge (ewBlocks s) bDst k e'\<rparr>))
      else Inr s)"

text \<open>The \<^verbatim>\<open>switch (bSrc->bbJumpKind)\<close>.\<close>

definition initFromSource ::
  "BasicBlock \<Rightarrow> weight_t \<Rightarrow> nat \<Rightarrow> nat \<Rightarrow> EdgeWeightState \<Rightarrow> jit_error + EdgeWeightState" where
  "initFromSource bSrc slop bDst k s =
     (case bbJumpKind bSrc of
        BBJ_ALWAYS \<Rightarrow>
          bindE (applyChecked (setEdgeWeightMinChecked (bbWeight bSrc) slop) bDst k s)
            (applyChecked (setEdgeWeightMaxChecked (bbWeight bSrc) slop) bDst k)
      | BBJ_EHCATCHRET \<Rightarrow>
          bindE (applyChecked (setEdgeWeightMinChecked (bbWeight bSrc) slop) bDst k s)
            (applyChecked (setEdgeWeightMaxChecked (bbWeight bSrc) slop) bDst k)
      | BBJ_NONE \<Rightarrow>
          bindE (applyChecked (setEdgeWeightMinChecked (bbWeight bSrc) slop) bDst k s)
            (applyChecked (setEdgeWeightMaxChecked (bbWeight bSrc) slop) bDst k)
      | BBJ_CALLFINALLY \<Rightarrow>
          bindE (applyChecked (setEdgeWeightMinChecked (bbWeight bSrc) slop) bDst k s)
            (applyChecked (setEdgeWeightMaxChecked (bbWeight bSrc) slop) bDst k)
      | BBJ_COND \<Rightarrow>
          if flEdgeWeightMax (edgeAt (ewBlocks s) bDst k) > bbWeight bSrc
          then applyChecked (setEdgeWeightMaxChecked (bbWeight bSrc) slop) bDst k s
          else Inr s
      | BBJ_SWITCH \<Rightarrow>
          if flEdgeWeightMax (edgeAt (ewBlocks s) bDst k) > bbWeight bSrc
          then applyChecked (setEdgeWeightMaxChecked (bbWeight bSrc) slop) bDst k s
          else Inr s
      | BBJ_EHFINALLYRET \<Rightarrow>
          if flEdgeWeightMax (edgeAt (ewBlocks s) bDst k) > bbWeight bSrc
          then applyChecked (setEdgeWeightMaxChecked (bbWeight bSrc) slop) bDst k s
          else Inr s
      | BBJ_EHFILTERRET \<Rightarrow>
          if flEdgeWeightMax (edgeAt (ewBlocks s) bDst k) > bbWeight bSrc
          then applyChecked (setEdgeWeightMaxChecked (bbWeight bSrc) slop) bDst k s
          else Inr s
      | BBJ_THROW \<Rightarrow> Inl NowayAssert
      | BBJ_RETURN \<Rightarrow> Inl NowayAssert)"

text \<open>``The maximum edge weight to block can't be greater than the weight of bDst''.\<close>

definition capByDest ::
  "weight_t \<Rightarrow> weight_t \<Rightarrow> nat \<Rightarrow> nat \<Rightarrow> EdgeWeightState \<Rightarrow> jit_error + EdgeWeightState" where
  "capByDest bDstWeight slop bDst k s =
     (if flEdgeWeightMax (edgeAt (ewBlocks s) bDst k) > bDstWeight
      then applyChecked (setEdgeWeightMaxChecked bDstWeight slop) bDst k s
      else Inr s)"

definition initEdgeWeight ::
  "(BasicBlock \<Rightarrow> BasicBlock \<Rightarrow> weight_t) \<Rightarrow> weight_t \<Rightarrow> nat \<Rightarrow> nat \<Rightarrow>
   EdgeWeightState \<Rightarrow> jit_error + EdgeWeightState" where
  "initEdgeWeight GetSlopFraction calledCount bDst k s =
     (if inconsistentProfileData s then Inr s
      else
        bindE (blockAt (ewBlocks s) (flBlock (edgeAt (ewBlocks s) bDst k))) (\<lambda>bSrc.
        bindE (resetUnprofiled bSrc bDst k (s\<lparr>assignOK := True, numEdges := Suc (numEdges s)\<rparr>)) (\<lambda>s1.
        bindE (initFromSource bSrc (fadd (GetSlopFraction bSrc (ewBlocks s ! bDst)) 1) bDst k s1) (\<lambda>s2.
        bindE (capByDest (bDstWeightOf calledCount (ewBlocks s) bDst)
                 (fadd (GetSlopFraction bSrc (ewBlocks s ! bDst)) 1) bDst k s2) (\<lambda>s3.
        Inr (leaveIfNotOK s3))))))"

definition edgesOfBlock ::
  "(nat \<Rightarrow> nat \<Rightarrow> EdgeWeightState \<Rightarrow> jit_error + EdgeWeightState) \<Rightarrow> nat \<Rightarrow>
   EdgeWeightState \<Rightarrow> jit_error + EdgeWeightState" where
  "edgesOfBlock body bDst s = foldE (body bDst) [0..<length (bbPreds (ewBlocks s ! bDst))] s"

definition allEdges ::
  "(nat \<Rightarrow> nat \<Rightarrow> EdgeWeightState \<Rightarrow> jit_error + EdgeWeightState) \<Rightarrow>
   EdgeWeightState \<Rightarrow> jit_error + EdgeWeightState" where
  "allEdges body s = foldE (edgesOfBlock body) [0..<length (ewBlocks s)] s"

text \<open>The other edge out of a \<^verbatim>\<open>BBJ_COND\<close> block \<^verbatim>\<open>bSrc\<close>, given the edge to
  \<^verbatim>\<open>bDst\<close>: its destination and position.\<close>

definition otherEdgeOf :: "BasicBlock list \<Rightarrow> nat \<Rightarrow> nat \<Rightarrow> jit_error + (nat \<times> nat)" where
  "otherEdgeOf bbs bSrc bDst =
     (case (if bbNext bbs bSrc = Some bDst then bbJumpDest (bbs ! bSrc) else bbNext bbs bSrc) of
        None \<Rightarrow> Inl NullDeref
      | Some target \<Rightarrow>
          bindE (blockAt bbs target) (\<lambda>tb.
            (case fgGetPredForBlock (bbPreds tb) bSrc of
               None \<Rightarrow> Inl NullDeref
             | Some j \<Rightarrow> Inr (target, j))))"

definition withinSlop :: "weight_t \<Rightarrow> weight_t \<Rightarrow> bool" where
  "withinSlop slop diff = (- slop \<le> diff \<and> diff \<le> slop)"

text \<open>``Adjust edge->flEdgeWeightMin up or adjust otherEdge->flEdgeWeightMax down'': the
  source runs this once for the edge and the other edge, and once with the two swapped.
  The edges are \<open>(d1, k1)\<close> and \<open>(d2, k2)\<close>, \<open>W\<close> is \<^verbatim>\<open>bSrc->bbWeight\<close>.\<close>

definition adjustPair ::
  "weight_t \<Rightarrow> weight_t \<Rightarrow> nat \<Rightarrow> nat \<Rightarrow> nat \<Rightarrow> nat \<Rightarrow> EdgeWeightState \<Rightarrow> jit_error + EdgeWeightState" where
  "adjustPair W slop d1 k1 d2 k2 s =
     (let diff = fsub W (fadd (flEdgeWeightMin (edgeAt (ewBlocks s) d1 k1))
                               (flEdgeWeightMax (edgeAt (ewBlocks s) d2 k2)))
      in if diff > 0 then
           applyChecked (setEdgeWeightMinChecked (fadd (flEdgeWeightMin (edgeAt (ewBlocks s) d1 k1)) diff) slop)
             d1 k1 s
         else if diff < 0 then
           applyChecked (setEdgeWeightMaxChecked (fadd (flEdgeWeightMax (edgeAt (ewBlocks s) d2 k2)) diff) slop)
             d2 k2 s
         else Inr s)"

text \<open>The end of the \<^verbatim>\<open>BBJ_COND\<close> case: leave on a failed assignment, else the two
  assertions of a checked build.\<close>

definition checkPair ::
  "weight_t \<Rightarrow> weight_t \<Rightarrow> nat \<Rightarrow> nat \<Rightarrow> nat \<Rightarrow> nat \<Rightarrow> EdgeWeightState \<Rightarrow> jit_error + EdgeWeightState" where
  "checkPair W slop d1 k1 d2 k2 s =
     (if \<not> assignOK s then Inr (s\<lparr>inconsistentProfileData := True\<rparr>)
      else if \<not> withinSlop slop (fsub W
               (fadd (flEdgeWeightMin (edgeAt (ewBlocks s) d1 k1)) (flEdgeWeightMax (edgeAt (ewBlocks s) d2 k2))))
      then Inl AssertFailed
      else if \<not> withinSlop slop (fsub W
               (fadd (flEdgeWeightMin (edgeAt (ewBlocks s) d2 k2)) (flEdgeWeightMax (edgeAt (ewBlocks s) d1 k1))))
      then Inl AssertFailed
      else Inr s)"

text \<open>The body of the first loop of a pass: the two edges out of a \<^verbatim>\<open>BBJ_COND\<close> block.\<close>

definition reconcileEdge ::
  "(BasicBlock \<Rightarrow> BasicBlock \<Rightarrow> weight_t) \<Rightarrow> nat \<Rightarrow> nat \<Rightarrow>
   EdgeWeightState \<Rightarrow> jit_error + EdgeWeightState" where
  "reconcileEdge GetSlopFraction bDst k s =
     (if inconsistentProfileData s then Inr s
      else
        bindE (blockAt (ewBlocks s) (flBlock (edgeAt (ewBlocks s) bDst k))) (\<lambda>bSrc.
        if bbJumpKind bSrc = BBJ_COND then
          bindE (otherEdgeOf (ewBlocks s) (flBlock (edgeAt (ewBlocks s) bDst k)) bDst) (\<lambda>other.
          if \<not> flEdgeWeightMin (edgeAt (ewBlocks s) bDst k) \<le> flEdgeWeightMax (edgeAt (ewBlocks s) bDst k)
          then Inl NowayAssert
          else if \<not> flEdgeWeightMin (edgeAt (ewBlocks s) (fst other) (snd other))
                    \<le> flEdgeWeightMax (edgeAt (ewBlocks s) (fst other) (snd other))
          then Inl NowayAssert
          else
          bindE (adjustPair (bbWeight bSrc) (fadd (GetSlopFraction bSrc (ewBlocks s ! bDst)) 1)
                   bDst k (fst other) (snd other) (s\<lparr>assignOK := True\<rparr>)) (\<lambda>s1.
          bindE (adjustPair (bbWeight bSrc) (fadd (GetSlopFraction bSrc (ewBlocks s ! bDst)) 1)
                   (fst other) (snd other) bDst k s1) (\<lambda>s2.
          checkPair (bbWeight bSrc) (fadd (GetSlopFraction bSrc (ewBlocks s ! bDst)) 1)
            bDst k (fst other) (snd other) s2)))
        else Inr (s\<lparr>assignOK := True\<rparr>)))"

text \<open>The body of the innermost loop of the second loop of a pass, for one in-edge of
  \<^verbatim>\<open>bDst\<close>, given the sums over all in-edges taken before that loop. First the lower
  bound: ``minWeightCalc is our minWeight when every other path to bDst takes it's
  flEdgeWeightMax value''.\<close>

definition balanceMin ::
  "weight_t \<Rightarrow> weight_t \<Rightarrow> weight_t \<Rightarrow> nat \<Rightarrow> nat \<Rightarrow> EdgeWeightState \<Rightarrow> jit_error + EdgeWeightState" where
  "balanceMin bDstWeight otherMaxEdgesWeightSum slop bDst k s =
     (if bDstWeight \<ge> otherMaxEdgesWeightSum then
        (let minWeightCalc = fsub bDstWeight otherMaxEdgesWeightSum in
         if minWeightCalc > flEdgeWeightMin (edgeAt (ewBlocks s) bDst k)
         then applyChecked (setEdgeWeightMinChecked minWeightCalc slop) bDst k s
         else Inr s)
      else Inr s)"

text \<open>Then the upper bound: ``maxWeightCalc is our maxWeight when every other path to bDst
  takes it's flEdgeWeightMin value''.\<close>

definition balanceMax ::
  "weight_t \<Rightarrow> weight_t \<Rightarrow> weight_t \<Rightarrow> nat \<Rightarrow> nat \<Rightarrow> EdgeWeightState \<Rightarrow> jit_error + EdgeWeightState" where
  "balanceMax bDstWeight otherMinEdgesWeightSum slop bDst k s =
     (if bDstWeight \<ge> otherMinEdgesWeightSum then
        (let maxWeightCalc = fsub bDstWeight otherMinEdgesWeightSum in
         if maxWeightCalc < flEdgeWeightMax (edgeAt (ewBlocks s) bDst k)
         then applyChecked (setEdgeWeightMaxChecked maxWeightCalc slop) bDst k s
         else Inr s)
      else Inr s)"

text \<open>Last, leave on a failed assignment, else count the edge as good or incomplete.\<close>

definition countGoodEdge :: "nat \<Rightarrow> nat \<Rightarrow> EdgeWeightState \<Rightarrow> EdgeWeightState" where
  "countGoodEdge bDst k s =
     (if \<not> assignOK s then s\<lparr>inconsistentProfileData := True\<rparr>
      else if flEdgeWeightMin (edgeAt (ewBlocks s) bDst k) = flEdgeWeightMax (edgeAt (ewBlocks s) bDst k)
      then s\<lparr>goodEdgeCountCurrent := Suc (goodEdgeCountCurrent s)\<rparr>
      else s\<lparr>hasIncompleteEdgeWeights := True\<rparr>)"

definition balanceEdge ::
  "(BasicBlock \<Rightarrow> BasicBlock \<Rightarrow> weight_t) \<Rightarrow> weight_t \<Rightarrow> weight_t \<Rightarrow> weight_t \<Rightarrow> nat \<Rightarrow> nat \<Rightarrow>
   EdgeWeightState \<Rightarrow> jit_error + EdgeWeightState" where
  "balanceEdge GetSlopFraction bDstWeight minEdgeWeightSum maxEdgeWeightSum bDst k s =
     (if inconsistentProfileData s then Inr s
      else
        bindE (blockAt (ewBlocks s) (flBlock (edgeAt (ewBlocks s) bDst k))) (\<lambda>bSrc.
        if \<not> maxEdgeWeightSum \<ge> flEdgeWeightMax (edgeAt (ewBlocks s) bDst k) then Inl NowayAssert
        else if \<not> minEdgeWeightSum \<ge> flEdgeWeightMin (edgeAt (ewBlocks s) bDst k) then Inl NowayAssert
        else
        bindE (balanceMin bDstWeight (fsub maxEdgeWeightSum (flEdgeWeightMax (edgeAt (ewBlocks s) bDst k)))
                 (fadd (GetSlopFraction bSrc (ewBlocks s ! bDst)) 1) bDst k (s\<lparr>assignOK := True\<rparr>)) (\<lambda>s1.
        bindE (balanceMax bDstWeight (fsub minEdgeWeightSum (flEdgeWeightMin (edgeAt (ewBlocks s) bDst k)))
                 (fadd (GetSlopFraction bSrc (ewBlocks s ! bDst)) 1) bDst k s1) (\<lambda>s2.
        Inr (countGoodEdge bDst k s2)))))"

text \<open>``Calculate the sums of the minimum and maximum edge weights'': each sum starts at 0
  and takes the weights in the order of the predecessor list.\<close>

definition sumWeights :: "weight_t list \<Rightarrow> weight_t" where
  "sumWeights ws = foldl fadd 0 ws"

definition balanceBlock ::
  "(BasicBlock \<Rightarrow> BasicBlock \<Rightarrow> weight_t) \<Rightarrow> weight_t \<Rightarrow> nat \<Rightarrow>
   EdgeWeightState \<Rightarrow> jit_error + EdgeWeightState" where
  "balanceBlock GetSlopFraction calledCount bDst s =
     (if inconsistentProfileData s then Inr s
      else if bbWeight (ewBlocks s ! bDst) = BB_MAX_WEIGHT then Inr (s\<lparr>inconsistentProfileData := True\<rparr>)
      else
        foldE
          (balanceEdge GetSlopFraction (bDstWeightOf calledCount (ewBlocks s) bDst)
             (sumWeights (map flEdgeWeightMin (bbPreds (ewBlocks s ! bDst))))
             (sumWeights (map flEdgeWeightMax (bbPreds (ewBlocks s ! bDst)))) bDst)
          [0..<length (bbPreds (ewBlocks s ! bDst))] s)"

definition balanceAll ::
  "(BasicBlock \<Rightarrow> BasicBlock \<Rightarrow> weight_t) \<Rightarrow> weight_t \<Rightarrow>
   EdgeWeightState \<Rightarrow> jit_error + EdgeWeightState" where
  "balanceAll GetSlopFraction calledCount s =
     foldE (balanceBlock GetSlopFraction calledCount) [0..<length (ewBlocks s)] s"

text \<open>The \<^verbatim>\<open>do ... while\<close> loop: at most 8 passes (\<^verbatim>\<open>iterations\<close> counts them).\<close>

function edgeWeightPasses ::
  "(BasicBlock \<Rightarrow> BasicBlock \<Rightarrow> weight_t) \<Rightarrow> weight_t \<Rightarrow> nat \<Rightarrow>
   EdgeWeightState \<Rightarrow> jit_error + EdgeWeightState" where
  "edgeWeightPasses GetSlopFraction calledCount iterations s =
     bindE (allEdges (reconcileEdge GetSlopFraction)
              (s\<lparr>goodEdgeCountPrevious := goodEdgeCountCurrent s,
                 goodEdgeCountCurrent := 0,
                 hasIncompleteEdgeWeights := False\<rparr>)) (\<lambda>s1.
     bindE (balanceAll GetSlopFraction calledCount s1) (\<lambda>s2.
       if inconsistentProfileData s2 then Inr s2
       else if numEdges s2 = goodEdgeCountCurrent s2 then
         (if hasIncompleteEdgeWeights s2 then Inl NowayAssert else Inr s2)
       else if hasIncompleteEdgeWeights s2 \<and> goodEdgeCountCurrent s2 > goodEdgeCountPrevious s2
               \<and> Suc iterations < 8
       then edgeWeightPasses GetSlopFraction calledCount (Suc iterations) s2
       else Inr s2))"
  by pat_completeness auto
termination
  by (relation "measure (\<lambda>(G, c, iterations, s). 8 - iterations)") auto

record EdgeWeightFlags =
  fgSlopUsedInEdgeWeights :: bool
  fgRangeUsedInEdgeWeights :: bool
  fgHaveValidEdgeWeights :: bool
  fgEdgeWeightsComputed :: bool
  fgEdgeCount :: nat

definition fgComputeEdgeWeights ::
  "bool \<Rightarrow> bool \<Rightarrow> (BasicBlock \<Rightarrow> BasicBlock \<Rightarrow> weight_t) \<Rightarrow> weight_t \<Rightarrow>
   BasicBlock list \<times> EdgeWeightFlags \<Rightarrow> jit_error + (BasicBlock list \<times> EdgeWeightFlags)" where
  "fgComputeEdgeWeights isOptimizing usingProfileWeights GetSlopFraction calledCount c =
     (if \<not> isOptimizing \<or> \<not> usingProfileWeights then Inr c
      else
        bindE (allEdges (initEdgeWeight GetSlopFraction calledCount)
                 \<lparr>ewBlocks = fst c, assignOK = True, usedSlop = False,
                  inconsistentProfileData = False, hasIncompleteEdgeWeights = False,
                  numEdges = 0, goodEdgeCountCurrent = 0, goodEdgeCountPrevious = 0\<rparr>) (\<lambda>s1.
        bindE (if inconsistentProfileData s1 then Inr s1
               else edgeWeightPasses GetSlopFraction calledCount 0 s1) (\<lambda>s2.
        Inr (ewBlocks s2,
             (snd c)\<lparr>fgSlopUsedInEdgeWeights := usedSlop s2,
                     fgRangeUsedInEdgeWeights :=
                       list_ex (\<lambda>b. list_ex (\<lambda>e. flEdgeWeightMin e \<noteq> flEdgeWeightMax e) (bbPreds b))
                         (ewBlocks s2),
                     fgHaveValidEdgeWeights := (\<not> inconsistentProfileData s2),
                     fgEdgeWeightsComputed := True,
                     fgEdgeCount := (if inconsistentProfileData s1 then fgEdgeCount (snd c) else numEdges s1)\<rparr>))))"

subsection \<open>Instrumentation\<close>

text \<open>
  What \<^verbatim>\<open>fgInstrumentMethod\<close> reads from the configuration and from headers that are not
  part of the sources (the \<^verbatim>\<open>ICorJitInfo::ClassProfile\<close> constants and
  \<^verbatim>\<open>jitGetILoffs\<close>), and the services it calls: the Host's allocator, which returns the
  \<^verbatim>\<open>HRESULT\<close>, the schema array as the Host leaves it and \<^verbatim>\<open>profileMemory\<close>, and
  \<^verbatim>\<open>fgEnsureFirstBBisScratch\<close>.
\<close>

record InstrumentEnv =
  compIsForInlining :: bool
  JitMinimalProfiling :: int
  JitClassProfiling :: int
  JIT_FLAG_PREJIT :: bool
  IsReadyToRun :: bool
  compClassProbeCount :: int
  CLASS_FLAG :: "32 word"
  INTERFACE_FLAG :: "32 word"
  ClassProfile_SIZE :: "32 word"
  jitGetILoffs :: "32 word \<Rightarrow> 32 word"
  allocPgoInstrumentationBySchema ::
    "PgoInstrumentationSchema list \<Rightarrow> int \<times> PgoInstrumentationSchema list \<times> nat"
  fgEnsureFirstBBisScratch :: "BasicBlock list \<Rightarrow> BasicBlock list"

text \<open>\<^verbatim>\<open>allocRequests\<close> records every schema passed to the Host's allocator.\<close>

record InstrumentState =
  imBlocks :: "BasicBlock list"
  lvaTable :: "var_types list"
  allocRequests :: "PgoInstrumentationSchema list list"

definition SUCCEEDED :: "int \<Rightarrow> bool" where
  "SUCCEEDED hr = (0 \<le> hr)"

definition E_NOTIMPL :: int where
  "E_NOTIMPL = - 2147467263"

text \<open>
  \<^verbatim>\<open>ClassProbeVisitor\<close>: a pre-order walk that hands every virtual, non-indirect call to
  the functor. The functor gets its state, the call's header and its \<^verbatim>\<open>this\<close> operand;
  it returns the new state, the new header and, when it replaces the \<^verbatim>\<open>this\<close>
  operand, the tree it builds around the old one. The nodes the inserter builds around
  the old operand are a helper call, local variables and a constant, so walking the new
  operand visits exactly the calls of the old one: the model walks the old operand and
  then builds the new tree around it.
\<close>

fun WalkTree ::
    "('s \<Rightarrow> GenTreeCallInfo \<Rightarrow> GenTree option \<Rightarrow>
        jit_error + ('s \<times> GenTreeCallInfo \<times> (GenTree \<Rightarrow> GenTree) option)) \<Rightarrow>
     's \<Rightarrow> GenTree \<Rightarrow> jit_error + ('s \<times> GenTree)"
  and WalkThis ::
    "('s \<Rightarrow> GenTreeCallInfo \<Rightarrow> GenTree option \<Rightarrow>
        jit_error + ('s \<times> GenTreeCallInfo \<times> (GenTree \<Rightarrow> GenTree) option)) \<Rightarrow>
     's \<Rightarrow> GenTree option \<Rightarrow> jit_error + ('s \<times> GenTree option)"
  and WalkTrees ::
    "('s \<Rightarrow> GenTreeCallInfo \<Rightarrow> GenTree option \<Rightarrow>
        jit_error + ('s \<times> GenTreeCallInfo \<times> (GenTree \<Rightarrow> GenTree) option)) \<Rightarrow>
     's \<Rightarrow> GenTree list \<Rightarrow> jit_error + ('s \<times> GenTree list)"
where
  "WalkTree functor s (GT_CALL call thisArg args) =
     bindE (if IsVirtual call \<and> gtCallType call \<noteq> CT_INDIRECT then functor s call thisArg
            else Inr (s, call, None)) (\<lambda>(s1, call1, around).
     bindE (WalkThis functor s1 thisArg) (\<lambda>(s2, thisArg2).
     bindE (WalkTrees functor s2 args) (\<lambda>(s3, args3).
       Inr (s3, GT_CALL call1
                  (case around of None \<Rightarrow> thisArg2 | Some build \<Rightarrow> map_option build thisArg2)
                  args3))))"
| "WalkTree functor s (GT_OPER oper operands) =
     bindE (WalkTrees functor s operands) (\<lambda>(s1, operands1). Inr (s1, GT_OPER oper operands1))"
| "WalkTree functor s (GT_LCL_VAR n) = Inr (s, GT_LCL_VAR n)"
| "WalkTree functor s (GT_CNS_INT v) = Inr (s, GT_CNS_INT v)"
| "WalkTree functor s (GT_IND_ICON_BBC a) = Inr (s, GT_IND_ICON_BBC a)"
| "WalkTree functor s (GT_METHOD_HANDLE r) = Inr (s, GT_METHOD_HANDLE r)"
| "WalkTree functor s (GT_LEAF n) = Inr (s, GT_LEAF n)"
| "WalkThis functor s None = Inr (s, None)"
| "WalkThis functor s (Some t) = bindE (WalkTree functor s t) (\<lambda>(s1, t1). Inr (s1, Some t1))"
| "WalkTrees functor s [] = Inr (s, [])"
| "WalkTrees functor s (t # ts) =
     bindE (WalkTree functor s t) (\<lambda>(s1, t1).
     bindE (WalkTrees functor s1 ts) (\<lambda>(s2, ts1). Inr (s2, t1 # ts1)))"

text \<open>\<^verbatim>\<open>BuildClassProbeSchemaGen::operator()\<close>: two schema entries per call.\<close>

definition BuildClassProbeSchemaGen ::
  "InstrumentEnv \<Rightarrow> PgoInstrumentationSchema list \<Rightarrow> GenTreeCallInfo \<Rightarrow> GenTree option \<Rightarrow>
   jit_error + (PgoInstrumentationSchema list \<times> GenTreeCallInfo \<times> (GenTree \<Rightarrow> GenTree) option)" where
  "BuildClassProbeSchemaGen env schema call thisArg =
     (if \<not> IsVirtualStub call \<and> \<not> IsVirtualVtable call then Inl AssertFailed
      else
        (case gtClassProfileCandidateInfo call of
           None \<Rightarrow> Inl NullDeref
         | Some info \<Rightarrow>
             (let schemaElem =
                    \<lparr>Offset = 0, InstrumentationKind = TypeHandleHistogramCount,
                     ILOffset = jitGetILoffs env (ilOffset info), Count = 1,
                     Other = (if IsVirtualStub call then CLASS_FLAG env OR INTERFACE_FLAG env
                              else CLASS_FLAG env)\<rparr>
              in Inr (schema @ [schemaElem,
                                schemaElem\<lparr>InstrumentationKind := TypeHandleHistogramTypeHandle,
                                           Count := ClassProfile_SIZE env\<rparr>],
                      call, None))))"

text \<open>The body of the first loop over the blocks: the schema and \<^verbatim>\<open>countOfBlocks\<close>.\<close>

definition schemaForBlock ::
  "InstrumentEnv \<Rightarrow> BasicBlock \<Rightarrow> PgoInstrumentationSchema list \<times> int \<Rightarrow>
   jit_error + (PgoInstrumentationSchema list \<times> int)" where
  "schemaForBlock env block acc =
     (if BBF_IMPORTED \<notin> bbFlags block then Inr acc
      else
        bindE (if BBF_HAS_CLASS_PROFILE \<in> bbFlags block
               then bindE (WalkTrees (BuildClassProbeSchemaGen env) (fst acc) (bbStmts block))
                      (\<lambda>(schema1, _). Inr schema1)
               else Inr (fst acc)) (\<lambda>schema1.
        if BBF_INTERNAL \<in> bbFlags block then Inr (schema1, snd acc)
        else if \<not> 0 \<le> sint (bbCodeOffs block) then Inl AssertFailed
        else Inr (schema1 @ [\<lparr>Offset = 0, InstrumentationKind = BasicBlockIntCount,
                              ILOffset = bbCodeOffs block, Count = 1, Other = 0\<rparr>],
                  snd acc + 1)))"

text \<open>\<^verbatim>\<open>ClassProbeInserter::operator()\<close>. Its state is \<^verbatim>\<open>*m_currentSchemaIndex\<close>,
  \<^verbatim>\<open>m_count\<close> and the compiler's table of locals (\<^verbatim>\<open>lvaGrabTemp\<close> adds one).\<close>

definition newHelperCallNode :: "CorInfoHelpFunc \<Rightarrow> GenTree list \<Rightarrow> GenTree" where
  "newHelperCallNode helper args =
     GT_CALL \<lparr>gtCallType = CT_HELPER, IsVirtualStub = False, IsVirtualVtable = False,
              gtCallHelper = Some helper, gtStubCallStubAddr = 0,
              gtClassProfileCandidateInfo = None, gtCallThisArgType = TYP_VOID\<rparr> None args"

definition classProbeThis :: "nat \<Rightarrow> nat \<Rightarrow> GenTree \<Rightarrow> GenTree" where
  "classProbeThis tmpNum classProfile obj =
     GT_OPER GT_COMMA
       [GT_OPER GT_ASG [GT_LCL_VAR tmpNum, obj],
        GT_OPER GT_COMMA
          [newHelperCallNode CORINFO_HELP_CLASSPROFILE [GT_LCL_VAR tmpNum, GT_CNS_INT (int classProfile)],
           GT_LCL_VAR tmpNum]]"

definition ClassProbeInserter ::
  "PgoInstrumentationSchema list \<Rightarrow> nat \<Rightarrow> bool \<Rightarrow> nat \<times> int \<times> var_types list \<Rightarrow>
   GenTreeCallInfo \<Rightarrow> GenTree option \<Rightarrow>
   jit_error + ((nat \<times> int \<times> var_types list) \<times> GenTreeCallInfo \<times> (GenTree \<Rightarrow> GenTree) option)" where
  "ClassProbeInserter schema profileMemory instrument st call thisArg =
     (case st of (currentSchemaIndex, m_count, lva) \<Rightarrow>
        bindE
          (if instrument then
             (if thisArg = None then Inl NullDeref
              else if gtCallThisArgType call \<noteq> TYP_REF then Inl AssertFailed
              else if \<not> currentSchemaIndex < length schema then Inl OutOfRange
              else Inr ((currentSchemaIndex + 2, m_count + 1, lva @ [TYP_REF]),
                        Some (classProbeThis (length lva)
                                (Offset (schema ! currentSchemaIndex) + profileMemory))))
           else Inr ((currentSchemaIndex, m_count + 1, lva), None)) (\<lambda>(st1, around).
        (case gtClassProfileCandidateInfo call of
           None \<Rightarrow> Inl NullDeref
         | Some info \<Rightarrow> Inr (st1, call\<lparr>gtStubCallStubAddr := stubAddr info\<rparr>, around))))"

record InsertState =
  isBlocks :: "BasicBlock list"
  isLvaTable :: "var_types list"
  currentSchemaIndex :: nat
  countOfCalls :: int
  countOfBlocks :: int
  addrOfFirstExecutionCount :: nat

definition counterIncrement :: "nat \<Rightarrow> GenTree" where
  "counterIncrement addr =
     GT_OPER GT_ASG [GT_IND_ICON_BBC addr, GT_OPER GT_ADD [GT_IND_ICON_BBC addr, GT_CNS_INT 1]]"

text \<open>The body of the second loop over the blocks. \<^verbatim>\<open>fgNewStmtAtBeg\<close> puts the new
  statement first in the block.\<close>

definition instrumentBlock ::
  "InstrumentEnv \<Rightarrow> PgoInstrumentationSchema list \<Rightarrow> nat \<Rightarrow> bool \<Rightarrow> nat \<Rightarrow>
   InsertState \<Rightarrow> jit_error + InsertState" where
  "instrumentBlock env schema profileMemory instrument i st =
     (if BBF_IMPORTED \<notin> bbFlags (isBlocks st ! i) then Inr st
      else
        bindE
          (if JitClassProfiling env > 0 then
             (if JIT_FLAG_PREJIT env then Inl AssertFailed
              else if BBF_HAS_CLASS_PROFILE \<in> bbFlags (isBlocks st ! i) then
                bindE (WalkTrees (ClassProbeInserter schema profileMemory instrument)
                         (currentSchemaIndex st, 0, isLvaTable st) (bbStmts (isBlocks st ! i)))
                  (\<lambda>((index1, m_count, lva1), stmts1).
                     if \<not> m_count \<le> countOfCalls st then Inl AssertFailed
                     else Inr (st\<lparr>isBlocks := (isBlocks st)[i := (isBlocks st ! i)\<lparr>bbStmts := stmts1\<rparr>],
                                  isLvaTable := lva1,
                                  currentSchemaIndex := index1,
                                  countOfCalls := countOfCalls st - m_count\<rparr>))
              else Inr st)
           else Inr st) (\<lambda>st1.
        if BBF_INTERNAL \<in> bbFlags (isBlocks st1 ! i) then Inr st1
        else
          (let st2 = st1\<lparr>countOfBlocks := countOfBlocks st1 - 1\<rparr> in
           if instrument then
             (if \<not> currentSchemaIndex st2 < length schema then Inl OutOfRange
              else if bbCodeOffs (isBlocks st2 ! i) \<noteq> ILOffset (schema ! currentSchemaIndex st2)
              then Inl AssertFailed
              else
                (let addrOfCurrentExecutionCount = Offset (schema ! currentSchemaIndex st2) + profileMemory
                 in Inr (st2\<lparr>addrOfFirstExecutionCount :=
                               (if addrOfFirstExecutionCount st2 = 0 then addrOfCurrentExecutionCount
                                else addrOfFirstExecutionCount st2),
                             currentSchemaIndex := Suc (currentSchemaIndex st2),
                             isBlocks := (isBlocks st2)
                               [i := (isBlocks st2 ! i)
                                  \<lparr>bbStmts := counterIncrement addrOfCurrentExecutionCount
                                               # bbStmts (isBlocks st2 ! i)\<rparr>]\<rparr>)))
           else Inr st2)))"

text \<open>The method entry callback added when prejitting; \<^verbatim>\<open>fgInsertStmtAtEnd\<close> puts the
  statement last in the first block.\<close>

definition methodEntryCallback :: "bool \<Rightarrow> nat \<Rightarrow> GenTree" where
  "methodEntryCallback readyToRun addrOfFirstExecutionCount' =
     GT_OPER GT_QMARK
       [GT_OPER GT_NE [GT_IND_ICON_BBC addrOfFirstExecutionCount', GT_CNS_INT 0],
        GT_OPER GT_COLON
          [GT_OPER GT_NOP [],
           newHelperCallNode CORINFO_HELP_BBT_FCN_ENTER [GT_METHOD_HANDLE readyToRun]]]"

definition fgInsertStmtAtEnd :: "GenTree \<Rightarrow> BasicBlock list \<Rightarrow> jit_error + BasicBlock list" where
  "fgInsertStmtAtEnd stmt bbs =
     (case bbs of
        [] \<Rightarrow> Inl NullDeref
      | first # rest \<Rightarrow> Inr (first\<lparr>bbStmts := bbStmts first @ [stmt]\<rparr> # rest))"

definition fgInstrumentMethod :: "InstrumentEnv \<Rightarrow> InstrumentState \<Rightarrow> jit_error + InstrumentState" where
  "fgInstrumentMethod env c =
     (if compIsForInlining env then Inl NowayAssert
      else
        bindE (foldE (schemaForBlock env) (imBlocks c) ([], 0)) (\<lambda>(schema, countOfBlocks0).
        let countOfCalls0 = compClassProbeCount env in
        if countOfCalls0 * 2 + countOfBlocks0 \<noteq> int (length schema) then Inl AssertFailed
        else if JitMinimalProfiling env > 0 \<and> countOfBlocks0 < 3 \<and> countOfCalls0 = 0 then
          (if countOfBlocks0 \<noteq> 1 then Inl AssertFailed else Inr c)
        else
          (case allocPgoInstrumentationBySchema env schema of (res, schema1, profileMemory) \<Rightarrow>
           let c1 = c\<lparr>allocRequests := allocRequests c @ [schema]\<rparr>;
               instrument = SUCCEEDED res
           in
           if \<not> SUCCEEDED res \<and> res \<noteq> E_NOTIMPL then Inl NowayAssert
           else
             bindE (foldE (instrumentBlock env schema1 profileMemory instrument)
                      [0..<length (imBlocks c1)]
                      \<lparr>isBlocks = imBlocks c1, isLvaTable = lvaTable c1, currentSchemaIndex = 0,
                       countOfCalls = countOfCalls0, countOfBlocks = countOfBlocks0,
                       addrOfFirstExecutionCount = 0\<rparr>) (\<lambda>st.
             let c2 = c1\<lparr>imBlocks := isBlocks st, lvaTable := isLvaTable st\<rparr> in
             if \<not> instrument then Inr c2
             else if countOfBlocks st \<noteq> 0 then Inl NowayAssert
             else if countOfCalls st \<noteq> 0 then Inl NowayAssert
             else if JIT_FLAG_PREJIT env then
               bindE (fgInsertStmtAtEnd
                        (methodEntryCallback (IsReadyToRun env) (addrOfFirstExecutionCount st))
                        (fgEnsureFirstBBisScratch env (imBlocks c2)))
                 (\<lambda>bbs. Inr (c2\<lparr>imBlocks := bbs\<rparr>))
             else Inr c2))))"

section \<open>Example inputs\<close>

definition exampleEdge :: flowList where
  "exampleEdge = \<lparr>flBlock = 0, flEdgeWeightMin = 2, flEdgeWeightMax = 10\<rparr>"

text \<open>Profile data with a histogram entry and two block counts at IL offset 4 (the first
  block count is the one read), and a block count at IL offset 0.\<close>

definition examplePgo :: "32 word \<Rightarrow> PgoState" where
  "examplePgo seed =
     \<lparr>compIsForImportOnly = False,
      fgPgoSchema = Some
        [\<lparr>Offset = 8, InstrumentationKind = TypeHandleHistogramCount, ILOffset = 4, Count = 1, Other = 0\<rparr>,
         \<lparr>Offset = 16, InstrumentationKind = BasicBlockIntCount, ILOffset = 4, Count = 1, Other = 0\<rparr>,
         \<lparr>Offset = 24, InstrumentationKind = BasicBlockIntCount, ILOffset = 4, Count = 1, Other = 0\<rparr>,
         \<lparr>Offset = 32, InstrumentationKind = BasicBlockIntCount, ILOffset = 0, Count = 1, Other = 0\<rparr>,
         \<lparr>Offset = 40, InstrumentationKind = BasicBlockIntCount, ILOffset = 8, Count = 1, Other = 0\<rparr>],
      fgPgoData = (\<lambda>a. if a = 16 then 77 else if a = 24 then 5 else if a = 32 then 200
                       else if a = 40 then 16777217 else 0),
      compMethodHash = 7, fgStressBBProf = seed\<rparr>"

definition mkBlock ::
  "weight_t \<Rightarrow> BBflag set \<Rightarrow> BBjumpKinds \<Rightarrow> nat option \<Rightarrow> nat \<Rightarrow> flowList list \<Rightarrow> BasicBlock" where
  "mkBlock w flags kind dest refs preds =
     \<lparr>bbWeight = w, bbFlags = flags, bbJumpKind = kind, bbJumpDest = dest, bbRefs = refs,
      bbPreds = preds, bbCodeOffs = 0, bbStmts = []\<rparr>"

definition edgeFrom :: "nat \<Rightarrow> flowList" where
  "edgeFrom src = \<lparr>flBlock = src, flEdgeWeightMin = 0, flEdgeWeightMax = BB_MAX_WEIGHT\<rparr>"

definition exampleInlineInfo :: "weight_t \<Rightarrow> InlineInfo" where
  "exampleInlineInfo w =
     \<lparr>profileScaleState = UNDETERMINED, profileScaleFactor = 0,
      iciBlock = mkBlock w {BBF_IMPORTED, BBF_PROF_WEIGHT} BBJ_NONE None 1 []\<rparr>"

text \<open>A chain \<open>B0 \<rightarrow> B1 \<rightarrow> B2\<close> whose middle block has no profile weight; \<open>p\<close> says
  whether the last block has one.\<close>

definition exampleChain :: "bool \<Rightarrow> weight_t \<Rightarrow> BasicBlock list" where
  "exampleChain p w2 =
     [mkBlock 100 {BBF_IMPORTED, BBF_PROF_WEIGHT} BBJ_NONE None 1 [],
      mkBlock 1 {BBF_IMPORTED} BBJ_NONE None 1 [edgeFrom 0],
      mkBlock w2 (if p then {BBF_IMPORTED, BBF_PROF_WEIGHT} else {BBF_IMPORTED}) BBJ_RETURN None 1
        [edgeFrom 1]]"

text \<open>A scratch first block in front of a loop header \<open>B1\<close> with a back edge from \<open>B2\<close>.\<close>

definition exampleScratchLoop :: "BasicBlock list" where
  "exampleScratchLoop =
     [mkBlock 1 {BBF_INTERNAL} BBJ_NONE None 1 [],
      mkBlock 90 {BBF_IMPORTED, BBF_PROF_WEIGHT} BBJ_NONE None 2 [edgeFrom 0, edgeFrom 2],
      mkBlock 90 {BBF_IMPORTED, BBF_PROF_WEIGHT} BBJ_COND (Some 1) 1 [edgeFrom 1],
      mkBlock 10 {BBF_IMPORTED, BBF_PROF_WEIGHT} BBJ_RETURN None 1 [edgeFrom 2]]"

section \<open>Specification functions\<close>

text \<open>The called count as the specification words it: the weight of the first block
  that is not internal when that block has one in-edge or the return weight is zero,
  else the return weight.\<close>

definition calledCountOf :: "weight_t \<Rightarrow> BasicBlock \<Rightarrow> weight_t" where
  "calledCountOf returnWeight firstILBlock =
     (if countOfInEdges firstILBlock = 1 \<or> returnWeight = 0 then bbWeight firstILBlock else returnWeight)"


text \<open>Two block lists of the same length whose blocks agree on having a profile weight.\<close>

definition sameProfileFlags :: "BasicBlock list \<Rightarrow> BasicBlock list \<Rightarrow> bool" where
  "sameProfileFlags bbs bbs' =
     (length bbs' = length bbs \<and> (\<forall>i<length bbs. hasProfileWeight (bbs' ! i) = hasProfileWeight (bbs ! i)))"


text \<open>The blocks that get a block count probe: imported and not internal.\<close>

definition countedBlock :: "BasicBlock \<Rightarrow> bool" where
  "countedBlock b = (BBF_IMPORTED \<in> bbFlags b \<and> BBF_INTERNAL \<notin> bbFlags b)"

text \<open>The blocks whose statements are scanned for class probes.\<close>

definition probedBlock :: "BasicBlock \<Rightarrow> bool" where
  "probedBlock b = (BBF_IMPORTED \<in> bbFlags b \<and> BBF_HAS_CLASS_PROFILE \<in> bbFlags b)"

text \<open>A call the visitor hands to its functor.\<close>

definition probedCall :: "GenTreeCallInfo \<Rightarrow> bool" where
  "probedCall call = (IsVirtual call \<and> gtCallType call \<noteq> CT_INDIRECT)"

text \<open>The tree with \<^verbatim>\<open>gtStubCallStubAddr\<close> of every virtual, non-indirect call set to the
  \<^verbatim>\<open>stubAddr\<close> saved in its candidate info, and nothing else changed.\<close>

fun restoreStubAddr :: "GenTree \<Rightarrow> GenTree" where
  "restoreStubAddr (GT_CALL call thisArg args) =
     GT_CALL
       (if probedCall call then
          (case gtClassProfileCandidateInfo call of
             None \<Rightarrow> call
           | Some info \<Rightarrow> call\<lparr>gtStubCallStubAddr := stubAddr info\<rparr>)
        else call)
       (map_option restoreStubAddr thisArg) (map restoreStubAddr args)"
| "restoreStubAddr (GT_OPER oper operands) = GT_OPER oper (map restoreStubAddr operands)"
| "restoreStubAddr (GT_LCL_VAR n) = GT_LCL_VAR n"
| "restoreStubAddr (GT_CNS_INT v) = GT_CNS_INT v"
| "restoreStubAddr (GT_IND_ICON_BBC a) = GT_IND_ICON_BBC a"
| "restoreStubAddr (GT_METHOD_HANDLE r) = GT_METHOD_HANDLE r"
| "restoreStubAddr (GT_LEAF n) = GT_LEAF n"

text \<open>The number of virtual, non-indirect calls in a tree, and whether each of them has
  its candidate info.\<close>

fun countProbes :: "GenTree \<Rightarrow> nat" where
  "countProbes (GT_CALL call thisArg args) =
     (if probedCall call then 1 else 0)
     + (case thisArg of None \<Rightarrow> 0 | Some t \<Rightarrow> countProbes t)
     + sum_list (map countProbes args)"
| "countProbes (GT_OPER oper operands) = sum_list (map countProbes operands)"
| "countProbes (GT_LCL_VAR n) = 0"
| "countProbes (GT_CNS_INT v) = 0"
| "countProbes (GT_IND_ICON_BBC a) = 0"
| "countProbes (GT_METHOD_HANDLE r) = 0"
| "countProbes (GT_LEAF n) = 0"

fun probesHaveInfo :: "GenTree \<Rightarrow> bool" where
  "probesHaveInfo (GT_CALL call thisArg args) =
     ((probedCall call \<longrightarrow> gtClassProfileCandidateInfo call \<noteq> None)
      \<and> (case thisArg of None \<Rightarrow> True | Some t \<Rightarrow> probesHaveInfo t)
      \<and> list_all probesHaveInfo args)"
| "probesHaveInfo (GT_OPER oper operands) = list_all probesHaveInfo operands"
| "probesHaveInfo (GT_LCL_VAR n) = True"
| "probesHaveInfo (GT_CNS_INT v) = True"
| "probesHaveInfo (GT_IND_ICON_BBC a) = True"
| "probesHaveInfo (GT_METHOD_HANDLE r) = True"
| "probesHaveInfo (GT_LEAF n) = True"

definition blockProbes :: "BasicBlock \<Rightarrow> nat" where
  "blockProbes b = (if probedBlock b then sum_list (map countProbes (bbStmts b)) else 0)"

text \<open>What the second walk does to a block when nothing is instrumented.\<close>

definition restoreBlock :: "InstrumentEnv \<Rightarrow> BasicBlock \<Rightarrow> BasicBlock" where
  "restoreBlock env b =
     (if JitClassProfiling env > 0 \<and> probedBlock b
      then b\<lparr>bbStmts := map restoreStubAddr (bbStmts b)\<rparr> else b)"

text \<open>What the claim says of a block when nothing is instrumented: in a block with a class
  profile every virtual, non-indirect call gets its stub address back.\<close>

definition restoreClassProfileBlock :: "BasicBlock \<Rightarrow> BasicBlock" where
  "restoreClassProfileBlock b =
     (if BBF_HAS_CLASS_PROFILE \<in> bbFlags b
      then b\<lparr>bbStmts := map restoreStubAddr (bbStmts b)\<rparr> else b)"

text \<open>A method of one block without calls, and a block with one virtual stub call whose
  stub address was saved as 42.\<close>

definition exampleEnv :: "int \<Rightarrow> int \<Rightarrow> int \<Rightarrow> int \<Rightarrow> InstrumentEnv" where
  "exampleEnv minimal classProfiling probeCount hr =
     \<lparr>compIsForInlining = False, JitMinimalProfiling = minimal,
      JitClassProfiling = classProfiling, JIT_FLAG_PREJIT = False, IsReadyToRun = False,
      compClassProbeCount = probeCount, CLASS_FLAG = 2147483648, INTERFACE_FLAG = 1073741824,
      ClassProfile_SIZE = 8, jitGetILoffs = (\<lambda>x. x),
      allocPgoInstrumentationBySchema = (\<lambda>schema. (hr, schema, 4096)),
      fgEnsureFirstBBisScratch = (\<lambda>bbs. bbs)\<rparr>"

definition exampleVirtualCall :: GenTree where
  "exampleVirtualCall =
     GT_CALL \<lparr>gtCallType = CT_USER_FUNC, IsVirtualStub = True, IsVirtualVtable = False,
              gtCallHelper = None, gtStubCallStubAddr = 0,
              gtClassProfileCandidateInfo = Some \<lparr>ilOffset = 3, probeIndex = 0, stubAddr = 42\<rparr>,
              gtCallThisArgType = TYP_REF\<rparr> (Some (GT_LCL_VAR 0)) [GT_CNS_INT 5]"

definition exampleMethod :: "GenTree list \<Rightarrow> BBflag set \<Rightarrow> InstrumentState" where
  "exampleMethod stmts flags =
     \<lparr>imBlocks = [\<lparr>bbWeight = 100, bbFlags = flags, bbJumpKind = BBJ_RETURN, bbJumpDest = None,
                    bbRefs = 1, bbPreds = [], bbCodeOffs = 0, bbStmts = stmts\<rparr>],
      lvaTable = [TYP_REF], allocRequests = []\<rparr>"

definition exampleProbeSchema :: "PgoInstrumentationSchema list" where
  "exampleProbeSchema =
     [\<lparr>Offset = 0, InstrumentationKind = TypeHandleHistogramCount, ILOffset = 3, Count = 1,
       Other = 3221225472\<rparr>,
      \<lparr>Offset = 0, InstrumentationKind = TypeHandleHistogramTypeHandle, ILOffset = 3, Count = 8,
       Other = 3221225472\<rparr>,
      \<lparr>Offset = 0, InstrumentationKind = BasicBlockIntCount, ILOffset = 0, Count = 1, Other = 0\<rparr>]"

definition exampleVirtualCallRestored :: GenTree where
  "exampleVirtualCallRestored =
     GT_CALL \<lparr>gtCallType = CT_USER_FUNC, IsVirtualStub = True, IsVirtualVtable = False,
              gtCallHelper = None, gtStubCallStubAddr = 42,
              gtClassProfileCandidateInfo = Some \<lparr>ilOffset = 3, probeIndex = 0, stubAddr = 42\<rparr>,
              gtCallThisArgType = TYP_REF\<rparr> (Some (GT_LCL_VAR 0)) [GT_CNS_INT 5]"

text \<open>A state of the edge-weight computation in which no setter has used slop and the
  profile data has not been found inconsistent.\<close>

definition clean :: "EdgeWeightState \<Rightarrow> bool" where
  "clean s = (\<not> usedSlop s \<and> \<not> inconsistentProfileData s)"

text \<open>An edge whose range was narrowed inside its old range.\<close>

definition tightOK :: "flowList \<Rightarrow> flowList \<Rightarrow> bool" where
  "tightOK e e' =
     (flBlock e' = flBlock e \<and> flEdgeWeightMin e \<le> flEdgeWeightMin e'
      \<and> flEdgeWeightMax e' \<le> flEdgeWeightMax e
      \<and> (flEdgeWeightMin e \<le> flEdgeWeightMax e \<longrightarrow> flEdgeWeightMin e' \<le> flEdgeWeightMax e'))"

text \<open>Two block lists that differ at most in the ranges of their edges, each edge of the
  second narrowed inside its range in the first.\<close>

definition tightens :: "BasicBlock list \<Rightarrow> BasicBlock list \<Rightarrow> bool" where
  "tightens bbs bbs' =
     list_all2 (\<lambda>b b'. b\<lparr>bbPreds := []\<rparr> = b'\<lparr>bbPreds := []\<rparr>
                    \<and> list_all2 tightOK (bbPreds b) (bbPreds b')) bbs bbs'"

text \<open>An edge into block \<open>d\<close> with a valid range and source whose maximum is at most the
  weight its destination has to receive and at most the weight of its source.\<close>

definition edgeCapped :: "weight_t \<Rightarrow> BasicBlock list \<Rightarrow> nat \<Rightarrow> flowList \<Rightarrow> bool" where
  "edgeCapped calledCount bbs d e =
     (edgeRangeOK e \<and> flBlock e < length bbs
      \<and> flEdgeWeightMax e \<le> bDstWeightOf calledCount bbs d
      \<and> flEdgeWeightMax e \<le> bbWeight (bbs ! flBlock e))"

definition allCapped :: "weight_t \<Rightarrow> BasicBlock list \<Rightarrow> bool" where
  "allCapped calledCount bbs =
     (\<forall>d < length bbs. \<forall>e \<in> set (bbPreds (bbs ! d)). edgeCapped calledCount bbs d e)"

text \<open>A state inside the processing of one edge: as \<open>clean\<close>, and no checked setter has
  returned false for this edge.\<close>

definition ok2 :: "EdgeWeightState \<Rightarrow> bool" where
  "ok2 s = (assignOK s \<and> \<not> usedSlop s \<and> \<not> inconsistentProfileData s)"

text \<open>Every edge of the flow graph has a valid range.\<close>

definition rangesOK :: "BasicBlock list \<Rightarrow> bool" where
  "rangesOK bbs = list_all (\<lambda>b. list_all edgeRangeOK (bbPreds b)) bbs"

text \<open>What the initial assignment does to an in-edge of block \<open>d\<close>: it keeps its source
  and, when its range was valid, leaves it capped.\<close>

definition initCapped :: "weight_t \<Rightarrow> BasicBlock list \<Rightarrow> nat \<Rightarrow> flowList \<Rightarrow> flowList \<Rightarrow> bool" where
  "initCapped calledCount bbs d e e' =
     (flBlock e' = flBlock e \<and> (edgeRangeOK e \<longrightarrow> edgeCapped calledCount bbs d e'))"

text \<open>Two block lists of the same length with the same weights.\<close>

definition sameWeights :: "BasicBlock list \<Rightarrow> BasicBlock list \<Rightarrow> bool" where
  "sameWeights bbs bbs' = (length bbs' = length bbs \<and> map bbWeight bbs' = map bbWeight bbs)"

text \<open>The edges out of block \<open>b\<close>: the in-edges of all blocks that come from \<open>b\<close>.\<close>

definition outEdges :: "BasicBlock list \<Rightarrow> nat \<Rightarrow> flowList list" where
  "outEdges bbs b = concat (map (\<lambda>blk. filter (\<lambda>e. flBlock e = b) (bbPreds blk)) bbs)"

text \<open>An edge whose weight is known exactly.\<close>

definition exactEdge :: "nat \<Rightarrow> weight_t \<Rightarrow> flowList" where
  "exactEdge src w = \<lparr>flBlock = src, flEdgeWeightMin = w, flEdgeWeightMax = w\<rparr>"

definition noEdgeFlags :: EdgeWeightFlags where
  "noEdgeFlags = \<lparr>fgSlopUsedInEdgeWeights = False, fgRangeUsedInEdgeWeights = False,
     fgHaveValidEdgeWeights = False, fgEdgeWeightsComputed = False, fgEdgeCount = 0\<rparr>"

definition solvedFlags :: "nat \<Rightarrow> EdgeWeightFlags" where
  "solvedFlags n = \<lparr>fgSlopUsedInEdgeWeights = False, fgRangeUsedInEdgeWeights = False,
     fgHaveValidEdgeWeights = True, fgEdgeWeightsComputed = True, fgEdgeCount = n\<rparr>"

text \<open>A diamond: \<open>B0\<close> branches to \<open>B1\<close> (fall through, weight 30) and \<open>B2\<close> (jump,
  weight 70), which join in \<open>B3\<close>; the flow graph with its edges before and after the
  edge weights are computed.\<close>

definition exampleDiamond :: "BasicBlock list" where
  "exampleDiamond =
     [mkBlock 100 {BBF_IMPORTED, BBF_PROF_WEIGHT} BBJ_COND (Some 2) 1 [],
      mkBlock 30 {BBF_IMPORTED, BBF_PROF_WEIGHT} BBJ_ALWAYS (Some 3) 1 [edgeFrom 0],
      mkBlock 70 {BBF_IMPORTED, BBF_PROF_WEIGHT} BBJ_NONE None 1 [edgeFrom 0],
      mkBlock 100 {BBF_IMPORTED, BBF_PROF_WEIGHT} BBJ_RETURN None 2 [edgeFrom 1, edgeFrom 2]]"

definition exampleDiamondSolved :: "BasicBlock list" where
  "exampleDiamondSolved =
     [mkBlock 100 {BBF_IMPORTED, BBF_PROF_WEIGHT} BBJ_COND (Some 2) 1 [],
      mkBlock 30 {BBF_IMPORTED, BBF_PROF_WEIGHT} BBJ_ALWAYS (Some 3) 1 [exactEdge 0 30],
      mkBlock 70 {BBF_IMPORTED, BBF_PROF_WEIGHT} BBJ_NONE None 1 [exactEdge 0 70],
      mkBlock 100 {BBF_IMPORTED, BBF_PROF_WEIGHT} BBJ_RETURN None 2 [exactEdge 1 30, exactEdge 2 70]]"

text \<open>A switch \<open>B0\<close> of weight \<open>wEntry\<close> with the three targets \<open>B1\<close>, \<open>B2\<close>, \<open>B3\<close> of weight
  10 each, which join in \<open>B4\<close> of weight \<open>wJoin\<close>; before and after the edge weights are
  computed.\<close>

definition exampleSwitch :: "weight_t \<Rightarrow> weight_t \<Rightarrow> BasicBlock list" where
  "exampleSwitch wEntry wJoin =
     [mkBlock wEntry {BBF_IMPORTED, BBF_PROF_WEIGHT} BBJ_SWITCH None 1 [],
      mkBlock 10 {BBF_IMPORTED, BBF_PROF_WEIGHT} BBJ_ALWAYS (Some 4) 1 [edgeFrom 0],
      mkBlock 10 {BBF_IMPORTED, BBF_PROF_WEIGHT} BBJ_ALWAYS (Some 4) 1 [edgeFrom 0],
      mkBlock 10 {BBF_IMPORTED, BBF_PROF_WEIGHT} BBJ_NONE None 1 [edgeFrom 0],
      mkBlock wJoin {BBF_IMPORTED, BBF_PROF_WEIGHT} BBJ_RETURN None 3
        [edgeFrom 1, edgeFrom 2, edgeFrom 3]]"

definition exampleSwitchSolved :: "weight_t \<Rightarrow> weight_t \<Rightarrow> BasicBlock list" where
  "exampleSwitchSolved wEntry wJoin =
     [mkBlock wEntry {BBF_IMPORTED, BBF_PROF_WEIGHT} BBJ_SWITCH None 1 [],
      mkBlock 10 {BBF_IMPORTED, BBF_PROF_WEIGHT} BBJ_ALWAYS (Some 4) 1 [exactEdge 0 10],
      mkBlock 10 {BBF_IMPORTED, BBF_PROF_WEIGHT} BBJ_ALWAYS (Some 4) 1 [exactEdge 0 10],
      mkBlock 10 {BBF_IMPORTED, BBF_PROF_WEIGHT} BBJ_NONE None 1 [exactEdge 0 10],
      mkBlock wJoin {BBF_IMPORTED, BBF_PROF_WEIGHT} BBJ_RETURN None 3
        [exactEdge 1 10, exactEdge 2 10, exactEdge 3 10]]"

text \<open>Two blocks \<open>B1\<close> and \<open>B2\<close> of weights 16777222 and 16777216 that join in \<open>B3\<close> of
  weight 33554440: the sum 33554438 of the two is not a binary32 number and rounds to
  33554440. Before and after the edge weights are computed.\<close>

definition exampleJoin :: "BasicBlock list" where
  "exampleJoin =
     [mkBlock 33554440 {BBF_IMPORTED, BBF_PROF_WEIGHT} BBJ_SWITCH None 1 [],
      mkBlock 16777222 {BBF_IMPORTED, BBF_PROF_WEIGHT} BBJ_ALWAYS (Some 3) 1 [edgeFrom 0],
      mkBlock 16777216 {BBF_IMPORTED, BBF_PROF_WEIGHT} BBJ_NONE None 1 [edgeFrom 0],
      mkBlock 33554440 {BBF_IMPORTED, BBF_PROF_WEIGHT} BBJ_RETURN None 2 [edgeFrom 1, edgeFrom 2]]"

definition exampleJoinSolved :: "BasicBlock list" where
  "exampleJoinSolved =
     [mkBlock 33554440 {BBF_IMPORTED, BBF_PROF_WEIGHT} BBJ_SWITCH None 1 [],
      mkBlock 16777222 {BBF_IMPORTED, BBF_PROF_WEIGHT} BBJ_ALWAYS (Some 3) 1 [exactEdge 0 16777222],
      mkBlock 16777216 {BBF_IMPORTED, BBF_PROF_WEIGHT} BBJ_NONE None 1 [exactEdge 0 16777216],
      mkBlock 33554440 {BBF_IMPORTED, BBF_PROF_WEIGHT} BBJ_RETURN None 2
        [exactEdge 1 16777222, exactEdge 2 16777216]]"


section \<open>Rounding\<close>

declare bitLength.simps [simp del]


lemma bitLength_less: "n < 2 ^ bitLength n"
proof (induction n rule: bitLength.induct)
  case (1 n)
  show ?case
  proof (cases "n = 0")
    case True
    then show ?thesis by (simp add: bitLength.simps [of 0])
  next
    case False
    then have "n div 2 < 2 ^ bitLength (n div 2)" using 1 by simp
    then have "n < 2 * 2 ^ bitLength (n div 2)" by linarith
    then show ?thesis using False by (simp add: bitLength.simps [of n])
  qed
qed

lemma bitLength_le: "n < 2 ^ j \<Longrightarrow> bitLength n \<le> j"
proof (induction n arbitrary: j rule: bitLength.induct)
  case (1 n)
  show ?case
  proof (cases "n = 0")
    case True
    then show ?thesis by (simp add: bitLength.simps [of 0])
  next
    case False
    then obtain i where j: "j = Suc i" using "1.prems" by (cases j) auto
    have "n div 2 < 2 ^ i" using "1.prems" j by auto
    then have "bitLength (n div 2) \<le> i" using "1.IH" [OF False] by simp
    then show ?thesis using False j by (simp add: bitLength.simps [of n])
  qed
qed

lemma bitLength_ge: "0 < n \<Longrightarrow> 2 ^ (bitLength n - 1) \<le> n"
proof (induction n rule: bitLength.induct)
  case (1 n)
  then have n: "n \<noteq> 0" by simp
  show ?case
  proof (cases "n div 2 = 0")
    case True
    then show ?thesis using n "1.prems"
      by (simp add: bitLength.simps [of n] bitLength.simps [of 0])
  next
    case False
    then have ih: "2 ^ (bitLength (n div 2) - 1) \<le> n div 2" using "1.IH" [OF n] by simp
    have b: "bitLength (n div 2) \<noteq> 0" using False by (simp add: bitLength.simps [of "n div 2"])
    then obtain i where i: "bitLength (n div 2) = Suc i" by (cases "bitLength (n div 2)") auto
    have "2 * 2 ^ i \<le> n" using ih i by simp
    then show ?thesis using n i by (simp add: bitLength.simps [of n])
  qed
qed

lemma roundHalfEven_of_int [simp]: "roundHalfEven (of_int i) = i"
  by (simp add: roundHalfEven_def)

lemma roundHalfEven_le: "q \<le> of_int j \<Longrightarrow> roundHalfEven q \<le> j"
proof -
  assume a: "q \<le> of_int j"
  show ?thesis
  proof (cases "q = of_int j")
    case True
    then show ?thesis by simp
  next
    case False
    then have "q < of_int j" using a by simp
    then have "\<lfloor>q\<rfloor> < j" by (simp add: floor_less_iff)
    then show ?thesis by (simp add: roundHalfEven_def Let_def)
  qed
qed

lemma roundHalfEven_ge: "of_int j \<le> q \<Longrightarrow> j \<le> roundHalfEven q"
proof -
  assume "of_int j \<le> q"
  then have "j \<le> \<lfloor>q\<rfloor>" by (simp add: le_floor_iff)
  then show ?thesis by (simp add: roundHalfEven_def Let_def)
qed

text \<open>Numbers with at most \<open>p\<close> significant bits and an exponent in range are not changed.\<close>

lemma roundBinary_dyadic:
  assumes i: "\<bar>i\<bar> < 2 ^ p" and e: "e \<le> k"
  shows "roundBinary p k (of_int i / 2 ^ e) = of_int i / 2 ^ e"
proof -
  let ?x = "of_int i / 2 ^ e :: real"
  let ?m = "nat \<bar>i\<bar> * 2 ^ (k - e)"
  have pk: "(2::real) ^ k = 2 ^ (k - e) * 2 ^ e"
    using e by (simp flip: power_add)
  have sc: "\<bar>?x\<bar> * 2 ^ k = of_int (\<bar>i\<bar> * 2 ^ (k - e))"
    unfolding pk by simp
  have m: "nat \<lfloor>\<bar>?x\<bar> * 2 ^ k\<rfloor> = ?m"
    unfolding sc floor_of_int by (simp add: nat_mult_distrib nat_power_eq)
  define s where "s = bitLength ?m - p"
  have "?m < 2 ^ p * 2 ^ (k - e)"
    using i by (simp add: nat_less_iff) 
  then have "bitLength ?m \<le> p + (k - e)"
    by (intro bitLength_le) (simp add: power_add)
  then have s: "s \<le> k - e" by (simp add: s_def)
  have ps: "(2::real) ^ (k - e) = 2 ^ (k - e - s) * 2 ^ s"
    using s by (simp flip: power_add)
  have q: "\<bar>?x\<bar> * 2 ^ k / 2 ^ s = of_int (\<bar>i\<bar> * 2 ^ (k - e - s))"
    unfolding sc by (simp add: ps)
  have "roundBinary p k ?x = sgn ?x * of_int (\<bar>i\<bar> * 2 ^ (k - e - s)) * 2 ^ s / 2 ^ k"
    unfolding roundBinary_def Let_def m s_def [symmetric] q roundHalfEven_of_int ..
  also have "\<dots> = sgn ?x * (of_int \<bar>i\<bar> / 2 ^ e)"
  proof -
    have "(2::real) ^ (k - e - s) * 2 ^ s / 2 ^ k = 1 / 2 ^ e"
      unfolding pk ps [symmetric] by simp
    then show ?thesis by (simp add: field_simps)
  qed
  also have "\<dots> = ?x"
    by (simp add: sgn_if abs_if field_simps)
  finally show ?thesis .
qed

lemma roundBinary_of_int:
  "\<bar>i\<bar> < 2 ^ p \<Longrightarrow> roundBinary p k (of_int i) = of_int i"
  using roundBinary_dyadic [of i p 0 k] by simp


lemma roundBinary_nonneg:
  assumes "0 \<le> x"
  shows "0 \<le> roundBinary p k x"
proof -
  have "(0::int) \<le> roundHalfEven (\<bar>x\<bar> * 2 ^ k / 2 ^ s)" for s
    by (rule roundHalfEven_ge) simp
  then show ?thesis using assms by (simp add: roundBinary_def Let_def sgn_if)
qed

text \<open>Rounding does not cross a power of two.\<close>

lemma roundBinary_le_power:
  assumes x: "0 \<le> x" "x \<le> 2 ^ j" and p: "1 \<le> p"
  shows "roundBinary p k x \<le> 2 ^ j"
proof (cases "x = 0")
  case True
  then show ?thesis by (simp add: roundBinary_def)
next
  case False
  then have pos: "0 < x" using x by simp
  let ?m = "nat \<lfloor>\<bar>x\<bar> * 2 ^ k\<rfloor>"
  define s where "s = bitLength ?m - p"
  have "\<bar>x\<bar> * 2 ^ k \<le> 2 ^ j * 2 ^ k" using x by simp
  then have "\<lfloor>\<bar>x\<bar> * 2 ^ k\<rfloor> \<le> \<lfloor>real_of_int (2 ^ (j + k))\<rfloor>"
    by (intro floor_mono) (simp add: power_add)
  then have "\<lfloor>\<bar>x\<bar> * 2 ^ k\<rfloor> \<le> 2 ^ (j + k)"
    by (simp only: floor_of_int)
  moreover have "(2::int) ^ (j + k) < 2 ^ (j + k + 1)" by simp
  ultimately have "\<lfloor>\<bar>x\<bar> * 2 ^ k\<rfloor> < 2 ^ (j + k + 1)" by (rule le_less_trans)
  then have "?m < 2 ^ (j + k + 1)" by (simp add: nat_less_iff)
  then have "bitLength ?m \<le> j + k + 1" by (rule bitLength_le)
  then have s: "s \<le> j + k" using p by (simp add: s_def)
  have ps: "(2::real) ^ (j + k) = 2 ^ (j + k - s) * 2 ^ s"
    using s by (simp flip: power_add)
  have "\<bar>x\<bar> * 2 ^ k / 2 ^ s \<le> 2 ^ (j + k) / 2 ^ s"
    using x by (simp add: power_add divide_right_mono)
  also have "\<dots> = of_int (2 ^ (j + k - s))" by (simp add: ps)
  finally have "roundHalfEven (\<bar>x\<bar> * 2 ^ k / 2 ^ s) \<le> 2 ^ (j + k - s)"
    by (rule roundHalfEven_le)
  then have "real_of_int (roundHalfEven (\<bar>x\<bar> * 2 ^ k / 2 ^ s)) \<le> 2 ^ (j + k - s)"
    by (metis of_int_le_iff of_int_numeral of_int_power)
  then have "real_of_int (roundHalfEven (\<bar>x\<bar> * 2 ^ k / 2 ^ s)) * 2 ^ s \<le> 2 ^ (j + k - s) * 2 ^ s"
    by (simp add: mult_right_mono)
  then have "real_of_int (roundHalfEven (\<bar>x\<bar> * 2 ^ k / 2 ^ s)) * 2 ^ s / 2 ^ k \<le> 2 ^ j"
    unfolding ps [symmetric] by (simp add: power_add field_simps)
  then show ?thesis using pos by (simp add: roundBinary_def Let_def s_def)
qed

text \<open>A number of at least the smallest positive value does not round to zero.\<close>

lemma roundBinary_pos:
  assumes x: "1 \<le> x * 2 ^ k" and p: "1 \<le> p"
  shows "0 < roundBinary p k x"
proof -
  have pos: "0 < x"
  proof (rule ccontr)
    assume "\<not> 0 < x"
    then have "x * 2 ^ k \<le> 0" by (simp add: mult_le_0_iff)
    with x show False by simp
  qed
  let ?m = "nat \<lfloor>\<bar>x\<bar> * 2 ^ k\<rfloor>"
  define s where "s = bitLength ?m - p"
  have m1: "1 \<le> \<lfloor>\<bar>x\<bar> * 2 ^ k\<rfloor>" using x pos by (simp add: le_floor_iff)
  then have m0: "0 < ?m" by simp
  have "s \<le> bitLength ?m - 1" using p by (simp add: s_def)
  then have "(2::nat) ^ s \<le> 2 ^ (bitLength ?m - 1)" by (simp add: power_increasing)
  also have "\<dots> \<le> ?m" by (rule bitLength_ge [OF m0])
  finally have "(2::nat) ^ s \<le> ?m" .
  then have "(2::int) ^ s \<le> \<lfloor>\<bar>x\<bar> * 2 ^ k\<rfloor>" using m1 by (simp add: le_nat_iff)
  then have "(2::real) ^ s \<le> \<bar>x\<bar> * 2 ^ k"
    by (metis le_floor_iff of_int_numeral of_int_power)
  then have "of_int 1 \<le> \<bar>x\<bar> * 2 ^ k / 2 ^ s" by (simp add: le_divide_eq)
  then have "1 \<le> roundHalfEven (\<bar>x\<bar> * 2 ^ k / 2 ^ s)" by (rule roundHalfEven_ge)
  then have "0 < real_of_int (roundHalfEven (\<bar>x\<bar> * 2 ^ k / 2 ^ s))" by simp
  then show ?thesis using pos by (simp add: roundBinary_def Let_def s_def)
qed

text \<open>A positive number that rounding leaves alone is at least the smallest positive
  value.\<close>

lemma roundBinary_fixed_pos:
  assumes "0 < x" and "roundBinary p k x = x"
  shows "1 \<le> x * 2 ^ k"
proof -
  define s where "s = bitLength (nat \<lfloor>\<bar>x\<bar> * 2 ^ k\<rfloor>) - p"
  define r where "r = roundHalfEven (\<bar>x\<bar> * 2 ^ k / 2 ^ s)"
  have e: "x = of_int r * 2 ^ s / 2 ^ k"
    using assms by (simp add: roundBinary_def Let_def s_def r_def)
  then have "0 < real_of_int r * 2 ^ s / 2 ^ k" using assms(1) by simp
  then have "0 < r" by (simp add: zero_less_mult_iff zero_less_divide_iff)
  then have r1: "1 \<le> real_of_int r" by simp
  have "(1::real) * 1 \<le> real_of_int r * 2 ^ s"
    by (rule mult_mono [OF r1]) (use r1 in simp_all)
  moreover have "x * 2 ^ k = real_of_int r * 2 ^ s" by (subst e) simp
  ultimately show ?thesis by simp
qed

text \<open>An integer with \<open>j\<close> bits more than fit is rounded to a multiple of \<open>2 ^ j\<close>.\<close>

lemma roundBinary_of_int_shift:
  assumes lo: "2 ^ (p + j) \<le> 2 * \<bar>i\<bar>" and hi: "\<bar>i\<bar> < 2 ^ (p + j)"
  shows "roundBinary p k (of_int i) =
           of_int (sgn i * roundHalfEven (of_int \<bar>i\<bar> / 2 ^ j) * 2 ^ j)"
proof -
  let ?m = "nat \<bar>i\<bar> * 2 ^ k"
  have sc: "\<bar>real_of_int i\<bar> * 2 ^ k = of_int (\<bar>i\<bar> * 2 ^ k)" by simp
  have m: "nat \<lfloor>\<bar>real_of_int i\<bar> * 2 ^ k\<rfloor> = ?m"
    unfolding sc floor_of_int by (simp add: nat_mult_distrib nat_power_eq)
  have "?m < 2 ^ (p + j) * 2 ^ k" using hi by (simp add: nat_less_iff)
  then have up: "bitLength ?m \<le> p + j + k"
    by (intro bitLength_le) (simp add: power_add)
  have "int (2 ^ (p + j)) \<le> int (2 * nat \<bar>i\<bar>)" using lo by simp
  then have "2 ^ (p + j) \<le> 2 * nat \<bar>i\<bar>" by (simp only: of_nat_le_iff)
  then have "2 ^ (p + j) * 2 ^ k \<le> 2 * nat \<bar>i\<bar> * 2 ^ k" by simp
  then have "2 ^ (p + j + k) \<le> 2 * ?m" by (simp add: power_add mult_ac)
  also have "\<dots> < 2 * 2 ^ bitLength ?m" using bitLength_less [of ?m] by simp
  finally have "(2::nat) ^ (p + j + k) < 2 ^ Suc (bitLength ?m)" by simp
  then have "p + j + k < Suc (bitLength ?m)" by (simp only: power_strict_increasing_iff rel_simps)
  then have b: "bitLength ?m = p + j + k" using up by simp
  have q: "\<bar>real_of_int i\<bar> * 2 ^ k / 2 ^ (j + k) = of_int \<bar>i\<bar> / 2 ^ j"
    by (simp add: power_add)
  have "roundBinary p k (of_int i)
      = sgn (real_of_int i) * of_int (roundHalfEven (of_int \<bar>i\<bar> / 2 ^ j)) * 2 ^ (j + k) / 2 ^ k"
    unfolding roundBinary_def Let_def m b by (simp add: q)
  also have "\<dots> = of_int (sgn i * roundHalfEven (of_int \<bar>i\<bar> / 2 ^ j) * 2 ^ j)"
    by (simp add: power_add sgn_if)
  finally show ?thesis .
qed

text \<open>Small integers, and the quarters used in the examples, are binary32 and binary64
  numbers.\<close>

lemma float32_of_int: "\<bar>i\<bar> < 16777216 \<Longrightarrow> float32 (of_int i) = of_int i"
  using roundBinary_of_int [of i 24 149] by (simp add: float32_def)

lemma float32_0: "float32 0 = 0"
  using float32_of_int [of 0] by simp

lemma float32_1: "float32 1 = 1"
  using float32_of_int [of 1] by simp

lemma float32_numeral: "(numeral n :: int) < 16777216 \<Longrightarrow> float32 (numeral n) = numeral n"
  using float32_of_int [of "numeral n"] by simp

lemma float32_neg_numeral:
  "(numeral n :: int) < 16777216 \<Longrightarrow> float32 (- numeral n) = - numeral n"
  using float32_of_int [of "- numeral n"] by simp

lemmas float32_small = float32_0 float32_1 float32_numeral float32_neg_numeral

text \<open>Integers from \<open>2 ^ 24\<close> to \<open>2 ^ 26\<close> are rounded to even numbers and to multiples of
  4.\<close>

lemma float32_numeral_2:
  "(16777216::int) \<le> numeral n \<Longrightarrow> (numeral n :: int) < 33554432 \<Longrightarrow>
   float32 (numeral n) = of_int (roundHalfEven (numeral n / 2) * 2)"
  using roundBinary_of_int_shift [of 24 1 "numeral n" 149] by (simp add: float32_def)

lemma float32_numeral_4:
  "(33554432::int) \<le> numeral n \<Longrightarrow> (numeral n :: int) < 67108864 \<Longrightarrow>
   float32 (numeral n) = of_int (roundHalfEven (numeral n / 4) * 4)"
  using roundBinary_of_int_shift [of 24 2 "numeral n" 149] by (simp add: float32_def)

lemmas float32_large = float32_numeral_2 float32_numeral_4 roundHalfEven_def Let_def


section \<open>Sequencing lemmas\<close>

lemma bindE_Inr_iff: "bindE m f = Inr y \<longleftrightarrow> (\<exists>x. m = Inr x \<and> f x = Inr y)"
  by (cases m) (simp_all add: bindE_def)

lemma bindE_Inr [simp]: "bindE (Inr x) f = f x"
  by (simp add: bindE_def)

lemma bindE_Inl [simp]: "bindE (Inl e) f = Inl e"
  by (simp add: bindE_def)

lemma foldE_append: "foldE f (xs @ ys) s = bindE (foldE f xs s) (foldE f ys)"
  by (induction xs arbitrary: s) (auto simp: bindE_def split: sum.splits)

lemma foldE_Inr_invariant:
  assumes "foldE f xs s = Inr s'" and "P s"
    and "\<And>x t t'. x \<in> set xs \<Longrightarrow> P t \<Longrightarrow> f x t = Inr t' \<Longrightarrow> P t'"
  shows "P s'"
  using assms
proof (induction xs arbitrary: s)
  case Nil
  then show ?case by simp
next
  case (Cons x xs)
  from Cons.prems(1) obtain t where t: "f x s = Inr t" "foldE f xs t = Inr s'"
    by (auto simp: bindE_Inr_iff)
  have "P t" using Cons.prems(2,3) t(1) by (meson list.set_intros(1))
  then show ?case using Cons.IH [OF t(2)] Cons.prems(3) by (meson list.set_intros(2))
qed

declare skipInternal.simps [simp del] missingWeightsLoop.simps [simp del]

lemma skipInternal_first:
  assumes "k < length bbs" "BBF_INTERNAL \<notin> bbFlags (bbs ! k)"
    "\<forall>j. i \<le> j \<and> j < k \<longrightarrow> BBF_INTERNAL \<in> bbFlags (bbs ! j)" "i \<le> k"
  shows "skipInternal bbs i = Inr k"
  using assms
proof (induction bbs i rule: skipInternal.induct)
  case (1 bbs i)
  show ?case
  proof (cases "i = k")
    case True
    then show ?thesis using "1.prems" by (simp add: skipInternal.simps)
  next
    case False
    then have lt: "i < k" using "1.prems" by simp
    then have int: "BBF_INTERNAL \<in> bbFlags (bbs ! i)" and il: "i < length bbs"
      using "1.prems" by auto
    have "skipInternal bbs (Suc i) = Inr k"
      using "1.IH" [OF il int] "1.prems" lt by auto
    then show ?thesis using int il by (simp add: skipInternal.simps [of bbs i])
  qed
qed


lemma post_Inr [simp]: "post (Inr x) Q = Q x"
  by (simp add: post_def)

lemma post_Inl [simp]: "post (Inl e) Q = True"
  by (simp add: post_def)

lemma post_bindE [simp]: "post (bindE m f) Q = post m (\<lambda>x. post (f x) Q)"
  by (cases m) (simp_all add: post_def)

lemma post_all: "(\<And>y. Q y) \<Longrightarrow> post m Q"
  by (cases m) simp_all

lemma post_conseq: "post m P \<Longrightarrow> (\<And>y. P y \<Longrightarrow> Q y) \<Longrightarrow> post m Q"
  by (cases m) simp_all

lemma postD: "post m Q \<Longrightarrow> m = Inr y \<Longrightarrow> Q y"
  by simp

lemma postI: "(\<And>y. m = Inr y \<Longrightarrow> Q y) \<Longrightarrow> post m Q"
  by (cases m) simp_all

lemma post_foldE:
  assumes "I s" and "\<And>x t. x \<in> set xs \<Longrightarrow> I t \<Longrightarrow> post (f x t) I"
  shows "post (foldE f xs s) I"
  using assms
proof (induction xs arbitrary: s)
  case Nil
  then show ?case by simp
next
  case (Cons x xs)
  have "post (f x s) I" using Cons.prems by simp
  then have "post (f x s) (\<lambda>t. post (foldE f xs t) I)"
  proof (rule post_conseq)
    fix t assume "I t"
    then show "post (foldE f xs t) I" using Cons.IH Cons.prems(2) by simp
  qed
  then show ?case by simp
qed


section \<open>Edge ranges\<close>

text \<open>
  C2. An edge with \<open>0 \<le> min \<le> max\<close> keeps that range through either checked setter, for
  any non-negative new weight and slop and whatever the setter returns (no assertion
  fails either); and when a setter returns true, afterwards the maximum is 0 or the new
  weight lies in the range.
\<close>

theorem setters_keep_edge_range:
  assumes "edgeRangeOK e" and "0 \<le> newWeight" and "0 \<le> slop"
  shows "setterKeepsRange (setEdgeWeightMinChecked newWeight slop e) newWeight
       \<and> setterKeepsRange (setEdgeWeightMaxChecked newWeight slop e) newWeight"
  using assms
  by (auto simp: setterKeepsRange_def setEdgeWeightMinChecked_def setEdgeWeightMaxChecked_def
        assertAdjusted_def edgeRangeOK_def inRangeOrZeroMax_def)

theorem setters_keep_edge_range_witness:
  "edgeRangeOK exampleEdge \<and> (0::real) \<le> 12 \<and> (0::real) \<le> 3
   \<and> setEdgeWeightMinChecked 12 3 exampleEdge
       = Inr (True, True, \<lparr>flBlock = 0, flEdgeWeightMin = 10, flEdgeWeightMax = 12\<rparr>)
   \<and> setEdgeWeightMaxChecked 12 3 exampleEdge
       = Inr (True, True, \<lparr>flBlock = 0, flEdgeWeightMin = 2, flEdgeWeightMax = 12\<rparr>)
   \<and> setterKeepsRange (setEdgeWeightMinChecked 12 3 exampleEdge) 12
   \<and> setterKeepsRange (setEdgeWeightMaxChecked 12 3 exampleEdge) 12"
proof -
  have ok: "edgeRangeOK exampleEdge" by (simp add: edgeRangeOK_def exampleEdge_def)
  have "setterKeepsRange (setEdgeWeightMinChecked 12 3 exampleEdge) 12
       \<and> setterKeepsRange (setEdgeWeightMaxChecked 12 3 exampleEdge) 12"
    using setters_keep_edge_range [OF ok, of 12 3] by simp
  moreover have "setEdgeWeightMinChecked 12 3 exampleEdge
       = Inr (True, True, \<lparr>flBlock = 0, flEdgeWeightMin = 10, flEdgeWeightMax = 12\<rparr>)"
    by (simp add: setEdgeWeightMinChecked_def assertAdjusted_def exampleEdge_def fadd_def
        float32_small)
  moreover have "setEdgeWeightMaxChecked 12 3 exampleEdge
       = Inr (True, True, \<lparr>flBlock = 0, flEdgeWeightMin = 2, flEdgeWeightMax = 12\<rparr>)"
    by (simp add: setEdgeWeightMaxChecked_def assertAdjusted_def exampleEdge_def fadd_def
        float32_small)
  ultimately show ?thesis using ok by simp
qed

section \<open>Profile data\<close>

lemma word_mod_eq_0_unat: "((h::32 word) mod w = 0) = (unat h mod unat w = 0)"
  by (metis unat_mod unat_eq_0)

lemma schemaLookup_find:
  "schemaLookup xs offset =
     List.find (\<lambda>s. InstrumentationKind s = BasicBlockIntCount \<and> ILOffset s = offset) xs"
  by (induction xs) auto

text \<open>
  C3. With the stress seed zero, the lookup returns true exactly when profile data is
  available (a schema is present and the compilation is not import-only), for every
  offset: it then gives the counter stored at the buffer offset of the first
  \<open>BasicBlockIntCount\<close> entry with that IL offset, converted to the float type of the
  weights (so rounded to binary32, which changes counters above \<open>2 ^ 24\<close> only), and
  weight 0 when no entry matches.
\<close>

theorem profile_weight_lookup:
  assumes "fgStressBBProf c = 0"
  shows "fgGetProfileWeightForBasicBlock c offset =
      (if fgHaveProfileData c then
         (case List.find (\<lambda>s. InstrumentationKind s = BasicBlockIntCount \<and> ILOffset s = offset)
                  (fgPgoSchemaEntries c) of
            Some s \<Rightarrow> Some (float32 (real (unat (fgPgoData c (Offset s)))))
          | None \<Rightarrow> Some 0)
       else None)
    \<and> (fgGetProfileWeightForBasicBlock c offset = None \<longleftrightarrow> \<not> fgHaveProfileData c)
    \<and> (fgHaveProfileData c \<longleftrightarrow> fgPgoSchema c \<noteq> None \<and> \<not> compIsForImportOnly c)"
  using assms
  by (auto simp: fgGetProfileWeightForBasicBlock_def fgHaveProfileData_def schemaLookup_find
      split: option.splits)

theorem profile_weight_lookup_witness:
  "fgStressBBProf (examplePgo 0) = 0
   \<and> fgGetProfileWeightForBasicBlock (examplePgo 0) 4 = Some 77
   \<and> fgGetProfileWeightForBasicBlock (examplePgo 0) 8 = Some 16777216
   \<and> fgGetProfileWeightForBasicBlock (examplePgo 0) 9 = Some 0
   \<and> fgGetProfileWeightForBasicBlock ((examplePgo 0)\<lparr>fgPgoSchema := None\<rparr>) 4 = None"
proof -
  have s: "fgStressBBProf (examplePgo 0) = 0"
    "fgStressBBProf ((examplePgo 0)\<lparr>fgPgoSchema := None\<rparr>) = 0"
    by (simp_all add: examplePgo_def)
  show ?thesis
    using profile_weight_lookup [OF s(1), of 4] profile_weight_lookup [OF s(1), of 8]
      profile_weight_lookup [OF s(1), of 9] profile_weight_lookup [OF s(2), of 4]
    by (simp add: examplePgo_def fgHaveProfileData_def fgPgoSchemaEntries_def
        float32_small float32_large)
qed

text \<open>
  C9. With a non-zero stress seed the lookup returns true with a weight that depends only
  on the method hash, the seed and the IL offset: with \<open>hash\<close> the 32-bit value
  \<open>(methodHash * seed) XOR (offset * 1027)\<close>, the weight is 0 when \<open>hash mod 3 = 0\<close>, else
  \<open>(hash mod 23) * (hash mod 29) * (hash mod 31)\<close> when \<open>hash mod 11 = 0\<close>, else
  \<open>(hash mod 17) * (hash mod 19)\<close>, and a zero weight at offset 0 becomes
  \<open>1 + hash mod 5\<close>. Replacing the schema, the counter buffer or the import-only flag
  does not change the result.
\<close>

theorem stress_weight_formula:
  assumes "fgStressBBProf c \<noteq> 0"
  shows "fgGetProfileWeightForBasicBlock c offset =
     Some (let hash = unat ((compMethodHash c * fgStressBBProf c) XOR (offset * 1027));
               w = (if hash mod 3 = 0 then 0
                    else if hash mod 11 = 0 then real ((hash mod 23) * (hash mod 29) * (hash mod 31))
                    else real ((hash mod 17) * (hash mod 19)))
           in if offset = 0 \<and> w = 0 then real (1 + hash mod 5) else w)
     \<and> fgGetProfileWeightForBasicBlock
          (c\<lparr>fgPgoSchema := schema, fgPgoData := data, compIsForImportOnly := importOnly\<rparr>) offset
        = fgGetProfileWeightForBasicBlock c offset"
  using assms
  by (simp add: fgGetProfileWeightForBasicBlock_def stressWeight_def Let_def
      word_mod_eq_0_unat unat_mod)

theorem stress_weight_formula_witness:
  "fgStressBBProf (examplePgo 6) \<noteq> 0
   \<and> fgGetProfileWeightForBasicBlock (examplePgo 6) 2 = Some 2
   \<and> fgGetProfileWeightForBasicBlock (examplePgo 6) 0 = Some 3
   \<and> fgGetProfileWeightForBasicBlock
        ((examplePgo 6)\<lparr>fgPgoSchema := None, fgPgoData := (\<lambda>a. 0), compIsForImportOnly := True\<rparr>) 2
      = Some 2"
proof -
  have s: "fgStressBBProf (examplePgo 6) \<noteq> 0" by (simp add: examplePgo_def)
  show ?thesis
    using stress_weight_formula [OF s, where offset = 2 and schema = None and data = "\<lambda>a. 0"
        and importOnly = True]
      stress_weight_formula [OF s, where offset = 0 and schema = None and data = "\<lambda>a. 0"
        and importOnly = True]
    by (simp add: examplePgo_def Let_def)
qed

section \<open>Inlinee profile scale\<close>

text \<open>A weight the lookup returns is not negative and at most \<open>2 ^ 32\<close>.\<close>

lemma stressWeight_bounds: "0 \<le> stressWeight h offset \<and> stressWeight h offset \<le> 2 ^ 32"
proof -
  have m: "unat (h mod 23) \<le> 23" "unat (h mod 29) \<le> 29" "unat (h mod 31) \<le> 31"
    "unat (h mod 17) \<le> 17" "unat (h mod 19) \<le> 19" "unat (h mod 5) \<le> 5"
    using mod_less_divisor [of 23 "unat h"] mod_less_divisor [of 29 "unat h"]
      mod_less_divisor [of 31 "unat h"] mod_less_divisor [of 17 "unat h"]
      mod_less_divisor [of 19 "unat h"] mod_less_divisor [of 5 "unat h"]
    by (simp_all add: unat_mod)
  have "unat (h mod 23) * unat (h mod 29) * unat (h mod 31) \<le> 23 * 29 * 31"
    by (intro mult_le_mono m)
  then have b: "real (unat (h mod 23) * unat (h mod 29) * unat (h mod 31)) \<le> real (23 * 29 * 31)"
    by (simp only: of_nat_le_iff)
  have "unat (h mod 17) * unat (h mod 19) \<le> 17 * 19"
    by (intro mult_le_mono m)
  then have c: "real (unat (h mod 17) * unat (h mod 19)) \<le> real (17 * 19)"
    by (simp only: of_nat_le_iff)
  have d: "real (unat (h mod 5)) \<le> real 5"
    using m(6) by (simp only: of_nat_le_iff)
  have z: "0 \<le> real (unat (h mod 23) * unat (h mod 29) * unat (h mod 31))"
    "0 \<le> real (unat (h mod 17) * unat (h mod 19))" "0 \<le> real (unat (h mod 5))"
    by (rule of_nat_0_le_iff)+
  have e: "stressWeight h offset =
     (let weight =
        (if h mod 3 = 0 then 0
         else if h mod 11 = 0
           then real (unat (h mod 23) * unat (h mod 29) * unat (h mod 31))
         else real (unat (h mod 17) * unat (h mod 19)))
      in if offset = 0 \<and> weight = 0 then 1 + real (unat (h mod 5)) else weight)"
    by (simp only: stressWeight_def of_nat_mult)
  show ?thesis unfolding e Let_def using b c d z by (auto simp only: split: if_splits) simp_all
qed

lemma lookup_bounds:
  assumes "fgGetProfileWeightForBasicBlock c offset = Some w"
  shows "0 \<le> w \<and> w \<le> 2 ^ 32"
proof -
  have f: "0 \<le> float32 (real (unat x)) \<and> float32 (real (unat x)) \<le> 2 ^ 32" for x :: "32 word"
  proof -
    have "unat x < 2 ^ 32" using unsigned_less [of x] by simp
    then have "real (unat x) \<le> 2 ^ 32"
      by (metis less_imp_le of_nat_le_iff of_nat_numeral of_nat_power)
    moreover have "0 \<le> real (unat x)" by (rule of_nat_0_le_iff)
    ultimately show ?thesis
      using roundBinary_le_power [of "real (unat x)" 32 24 149]
        roundBinary_nonneg [of "real (unat x)" 24 149]
      unfolding float32_def by simp
  qed
  show ?thesis
    using assms f stressWeight_bounds
    by (auto simp: fgGetProfileWeightForBasicBlock_def Let_def split: if_splits option.splits)
qed

text \<open>The quotient of a positive binary32 number by a weight from the lookup that is not
  smaller stays in \<open>(0, 1]\<close> when it is rounded to binary64.\<close>

lemma scale_in_unit_interval:
  assumes pos: "0 < cs" and fl: "float32 cs = cs" and le: "cs \<le> callee" and up: "callee \<le> 2 ^ 32"
  shows "0 < float64 (cs / callee) \<and> float64 (cs / callee) \<le> 1"
proof -
  have cp: "0 < callee" using pos le by simp
  have q1: "0 \<le> cs / callee" "cs / callee \<le> 2 ^ 0" using pos le cp by simp_all
  have u: "float64 (cs / callee) \<le> 1"
    using roundBinary_le_power [OF q1, of 53 1074] by (simp add: float64_def)
  have s: "1 \<le> cs * 2 ^ 149"
    using roundBinary_fixed_pos [OF pos, of 24 149] fl by (simp add: float32_def)
  have "callee \<le> cs * 2 ^ 149 * 2 ^ 32"
  proof -
    have "1 * 2 ^ 32 \<le> cs * 2 ^ 149 * 2 ^ 32" using s by (intro mult_right_mono) simp_all
    then show ?thesis using up by simp
  qed
  also have "\<dots> \<le> cs * 2 ^ 1074" using pos by simp
  finally have "1 \<le> cs * 2 ^ 1074 / callee" using cp by (simp add: le_divide_eq)
  then have "1 \<le> cs / callee * 2 ^ 1074" by simp
  then have "0 < float64 (cs / callee)"
    using roundBinary_pos [of "cs / callee" 1074 53] by (simp add: float64_def)
  then show ?thesis using u by simp
qed

text \<open>
  C10. For an inlinee whose call-site weight is a binary32 number that is not negative: a
  scale that is already determined is left alone; otherwise the state becomes \<open>KNOWN\<close>
  exactly when the call site is profiled with a non-zero weight, the callee has profile
  data and its entry weight is at least the call-site weight, and then the factor is
  call-site weight divided by callee weight (the quotient of the source, in \<^verbatim>\<open>double\<close>),
  with \<open>0 < callSiteWeight \<le> calleeWeight\<close>, and it lies in \<open>(0, 1]\<close>; in every other case
  the state becomes \<open>UNAVAILABLE\<close> and the factor is not written.
\<close>

theorem profile_scale_known_or_unavailable:
  assumes "0 \<le> bbWeight (iciBlock ii)"
    and "float32 (bbWeight (iciBlock ii)) = bbWeight (iciBlock ii)"
  shows "(profileScaleState ii \<noteq> UNDETERMINED \<longrightarrow> fgComputeProfileScale True c ii = Inr ii)
   \<and> (\<forall>calleeWeight.
         profileScaleState ii = UNDETERMINED \<and> hasProfileWeight (iciBlock ii)
         \<and> bbWeight (iciBlock ii) \<noteq> 0 \<and> fgHaveProfileData c
         \<and> fgGetProfileWeightForBasicBlock c 0 = Some calleeWeight
         \<and> bbWeight (iciBlock ii) \<le> calleeWeight \<longrightarrow>
           fgComputeProfileScale True c ii =
             Inr (ii\<lparr>profileScaleFactor := float64 (bbWeight (iciBlock ii) / calleeWeight),
                     profileScaleState := KNOWN\<rparr>)
           \<and> 0 < bbWeight (iciBlock ii)
           \<and> 0 < float64 (bbWeight (iciBlock ii) / calleeWeight)
           \<and> float64 (bbWeight (iciBlock ii) / calleeWeight) \<le> 1)
   \<and> (profileScaleState ii = UNDETERMINED
        \<and> (\<not> hasProfileWeight (iciBlock ii) \<or> bbWeight (iciBlock ii) = 0 \<or> \<not> fgHaveProfileData c
            \<or> fgGetProfileWeightForBasicBlock c 0 = None
            \<or> (\<exists>calleeWeight. fgGetProfileWeightForBasicBlock c 0 = Some calleeWeight
                  \<and> calleeWeight < bbWeight (iciBlock ii))) \<longrightarrow>
          fgComputeProfileScale True c ii = Inr (ii\<lparr>profileScaleState := UNAVAILABLE\<rparr>))"
proof (intro conjI allI impI)
  assume "profileScaleState ii \<noteq> UNDETERMINED"
  then show "fgComputeProfileScale True c ii = Inr ii"
    by (simp add: fgComputeProfileScale_def)
next
  fix calleeWeight
  assume a: "profileScaleState ii = UNDETERMINED \<and> hasProfileWeight (iciBlock ii)
         \<and> bbWeight (iciBlock ii) \<noteq> 0 \<and> fgHaveProfileData c
         \<and> fgGetProfileWeightForBasicBlock c 0 = Some calleeWeight
         \<and> bbWeight (iciBlock ii) \<le> calleeWeight"
  then show "fgComputeProfileScale True c ii =
             Inr (ii\<lparr>profileScaleFactor := float64 (bbWeight (iciBlock ii) / calleeWeight),
                     profileScaleState := KNOWN\<rparr>)"
    by (simp add: fgComputeProfileScale_def Let_def)
  show pos: "0 < bbWeight (iciBlock ii)" using a assms by simp
  have up: "calleeWeight \<le> 2 ^ 32" using lookup_bounds [of c 0 calleeWeight] a by simp
  have le: "bbWeight (iciBlock ii) \<le> calleeWeight" using a by simp
  show "0 < float64 (bbWeight (iciBlock ii) / calleeWeight)"
    using scale_in_unit_interval [OF pos assms(2) le up] by simp
  show "float64 (bbWeight (iciBlock ii) / calleeWeight) \<le> 1"
    using scale_in_unit_interval [OF pos assms(2) le up] by simp
next
  assume a: "profileScaleState ii = UNDETERMINED
        \<and> (\<not> hasProfileWeight (iciBlock ii) \<or> bbWeight (iciBlock ii) = 0 \<or> \<not> fgHaveProfileData c
            \<or> fgGetProfileWeightForBasicBlock c 0 = None
            \<or> (\<exists>calleeWeight. fgGetProfileWeightForBasicBlock c 0 = Some calleeWeight
                  \<and> calleeWeight < bbWeight (iciBlock ii)))"
  then show "fgComputeProfileScale True c ii = Inr (ii\<lparr>profileScaleState := UNAVAILABLE\<rparr>)"
    by (auto simp: fgComputeProfileScale_def Let_def split: option.splits)
qed

theorem profile_scale_known_or_unavailable_witness:
  "0 \<le> bbWeight (iciBlock (exampleInlineInfo 50))
   \<and> float32 (bbWeight (iciBlock (exampleInlineInfo 50))) = bbWeight (iciBlock (exampleInlineInfo 50))
   \<and> fgGetProfileWeightForBasicBlock (examplePgo 0) 0 = Some 200
   \<and> fgComputeProfileScale True (examplePgo 0) (exampleInlineInfo 50)
       = Inr ((exampleInlineInfo 50)\<lparr>profileScaleFactor := 1 / 4, profileScaleState := KNOWN\<rparr>)
   \<and> fgComputeProfileScale True (examplePgo 0) (exampleInlineInfo 300)
       = Inr ((exampleInlineInfo 300)\<lparr>profileScaleState := UNAVAILABLE\<rparr>)"
proof -
  have w: "0 \<le> bbWeight (iciBlock (exampleInlineInfo 50))"
    "0 \<le> bbWeight (iciBlock (exampleInlineInfo 300))"
    by (simp_all add: exampleInlineInfo_def mkBlock_def)
  have r: "float32 (bbWeight (iciBlock (exampleInlineInfo 50))) = bbWeight (iciBlock (exampleInlineInfo 50))"
    "float32 (bbWeight (iciBlock (exampleInlineInfo 300))) = bbWeight (iciBlock (exampleInlineInfo 300))"
    by (simp_all add: exampleInlineInfo_def mkBlock_def float32_small)
  have l: "fgGetProfileWeightForBasicBlock (examplePgo 0) 0 = Some 200"
    by (simp add: fgGetProfileWeightForBasicBlock_def fgHaveProfileData_def
        fgPgoSchemaEntries_def examplePgo_def float32_small)
  have h: "fgHaveProfileData (examplePgo 0)"
    by (simp add: fgHaveProfileData_def examplePgo_def)
  have f: "profileScaleState (exampleInlineInfo x) = UNDETERMINED"
    "hasProfileWeight (iciBlock (exampleInlineInfo x))"
    "bbWeight (iciBlock (exampleInlineInfo x)) = x" for x
    by (simp_all add: exampleInlineInfo_def mkBlock_def hasProfileWeight_def)
  have q: "float64 (50 / 200) = 1 / 4"
    using roundBinary_dyadic [of 1 53 2 1074] by (simp add: float64_def)
  have k: "fgComputeProfileScale True (examplePgo 0) (exampleInlineInfo 50)
       = Inr ((exampleInlineInfo 50)\<lparr>profileScaleFactor := 1 / 4, profileScaleState := KNOWN\<rparr>)"
    using profile_scale_known_or_unavailable [OF w(1) r(1), of "examplePgo 0"] l h f [of 50] q
    by simp
  have u: "fgComputeProfileScale True (examplePgo 0) (exampleInlineInfo 300)
       = Inr ((exampleInlineInfo 300)\<lparr>profileScaleState := UNAVAILABLE\<rparr>)"
    using profile_scale_known_or_unavailable [OF w(2) r(2), of "examplePgo 0"] l h f [of 300]
    by simp
  show ?thesis using w(1) r(1) l k u by simp
qed

section \<open>Called count\<close>

text \<open>
  C8. With profile weights in use and \<open>k\<close> the first block that is not internal:
  \<^verbatim>\<open>fgCalledCount\<close> becomes that block's weight if it has exactly one in-edge or the
  return weight is zero, and the return weight otherwise; when the first block is a
  scratch block its weight becomes \<^verbatim>\<open>fgCalledCount\<close>, it is marked as having a profile
  weight and \<^verbatim>\<open>BBF_RUN_RARELY\<close> is set exactly when that weight is zero; no other block
  changes. In a checked build the call asserts instead when the first IL block has no
  profile weight where the source expects one.
\<close>

theorem called_count:
  assumes "k < length (fgBBs c)" and "BBF_INTERNAL \<notin> bbFlags (fgBBs c ! k)"
    and "\<forall>j<k. BBF_INTERNAL \<in> bbFlags (fgBBs c ! j)"
  shows "if \<not> hasProfileWeight (fgBBs c ! k)
            \<and> (k \<noteq> 0 \<or> countOfInEdges (fgBBs c ! k) = 1 \<or> returnWeight = 0)
         then fgComputeCalledCount True firstBBisScratch returnWeight c = Inl AssertFailed
         else (\<exists>c'. fgComputeCalledCount True firstBBisScratch returnWeight c = Inr c'
            \<and> fgCalledCount c' = calledCountOf returnWeight (fgBBs c ! k)
            \<and> length (fgBBs c') = length (fgBBs c)
            \<and> (\<forall>i. 0 < i \<and> i < length (fgBBs c) \<longrightarrow> fgBBs c' ! i = fgBBs c ! i)
            \<and> (if firstBBisScratch
                then bbWeight (fgBBs c' ! 0) = fgCalledCount c'
                   \<and> (BBF_RUN_RARELY \<in> bbFlags (fgBBs c' ! 0) \<longleftrightarrow> fgCalledCount c' = 0)
                   \<and> hasProfileWeight (fgBBs c' ! 0)
                else fgBBs c' = fgBBs c))"
proof -
  have sk: "skipInternal (fgBBs c) 0 = Inr k"
    using skipInternal_first [of k "fgBBs c" 0] assms by simp
  have len: "0 < length (fgBBs c)" using assms(1) by (cases "fgBBs c") simp_all
  show ?thesis
    using len
    by (auto simp: fgComputeCalledCount_def sk calledCountOf_def setRunRarely_def
        setBBProfileWeight_def hasProfileWeight_def)
qed


theorem called_count_witness:
  "1 < length (fgBBs \<lparr>fgBBs = exampleScratchLoop, fgCalledCount = 100\<rparr>)
   \<and> BBF_INTERNAL \<notin> bbFlags (exampleScratchLoop ! 1)
   \<and> BBF_INTERNAL \<in> bbFlags (exampleScratchLoop ! 0)
   \<and> countOfInEdges (exampleScratchLoop ! 1) = 2
   \<and> (\<exists>c'. fgComputeCalledCount True True 10 \<lparr>fgBBs = exampleScratchLoop, fgCalledCount = 100\<rparr> = Inr c'
          \<and> fgCalledCount c' = 10 \<and> bbWeight (fgBBs c' ! 0) = 10
          \<and> BBF_RUN_RARELY \<notin> bbFlags (fgBBs c' ! 0))"
proof -
  let ?c = "\<lparr>fgBBs = exampleScratchLoop, fgCalledCount = 100\<rparr>"
  have a: "1 < length (fgBBs ?c)" "BBF_INTERNAL \<notin> bbFlags (fgBBs ?c ! 1)"
    "\<forall>j<1. BBF_INTERNAL \<in> bbFlags (fgBBs ?c ! j)"
    by (simp_all add: exampleScratchLoop_def mkBlock_def)
  have b: "hasProfileWeight (exampleScratchLoop ! 1)" "countOfInEdges (exampleScratchLoop ! 1) = 2"
    "bbWeight (exampleScratchLoop ! 1) = 90"
    by (simp_all add: exampleScratchLoop_def mkBlock_def hasProfileWeight_def countOfInEdges_def)
  show ?thesis
    using called_count [OF a, where firstBBisScratch = True and returnWeight = 10] a b
    by (auto simp: calledCountOf_def)
qed



section \<open>Missing block weights\<close>

lemma prof_flag_setRunRarely:
  "BBF_PROF_WEIGHT \<in> bbFlags (setRunRarely b) \<longleftrightarrow> BBF_PROF_WEIGHT \<in> bbFlags b"
  by (simp add: setRunRarely_def)

lemma sameProfileFlags_refl: "sameProfileFlags bbs bbs"
  by (simp add: sameProfileFlags_def)

lemma sameProfileFlags_trans:
  "sameProfileFlags a b \<Longrightarrow> sameProfileFlags b c \<Longrightarrow> sameProfileFlags a c"
  by (simp add: sameProfileFlags_def)

lemma sameProfileFlags_update:
  "sameProfileFlags bbs (bbs[i := setRunRarely ((bbs ! i)\<lparr>bbWeight := w\<rparr>)])"
  unfolding sameProfileFlags_def
proof (intro conjI allI impI)
  fix j assume "j < length bbs"
  then show "hasProfileWeight (bbs[i := setRunRarely ((bbs ! i)\<lparr>bbWeight := w\<rparr>)] ! j)
        = hasProfileWeight (bbs ! j)"
    by (cases "j = i") (simp_all add: hasProfileWeight_def prof_flag_setRunRarely)
qed simp

lemma missingWeightForBlock_flags:
  "post (missingWeightForBlock bDst s) (\<lambda>s'. sameProfileFlags (mwBlocks s) (mwBlocks s'))"
  unfolding missingWeightForBlock_def
  by (auto simp: sameProfileFlags_refl sameProfileFlags_update intro!: post_all)

lemma missingWeightsPass_flags:
  "post (missingWeightsPass s) (\<lambda>s'. sameProfileFlags (mwBlocks s) (mwBlocks s'))"
  unfolding missingWeightsPass_def
proof (rule post_foldE)
  show "sameProfileFlags (mwBlocks s) (mwBlocks (s\<lparr>mwChanged := False, mwReturnWeight := 0\<rparr>))"
    by (simp add: sameProfileFlags_refl)
next
  fix x and t :: MissingWeightsState
  assume "sameProfileFlags (mwBlocks s) (mwBlocks t)"
  then show "post (missingWeightForBlock x t) (\<lambda>s'. sameProfileFlags (mwBlocks s) (mwBlocks s'))"
    using missingWeightForBlock_flags [of x t] sameProfileFlags_trans
    by (blast intro: post_conseq)
qed

lemma missingWeightsLoop_flags:
  "post (missingWeightsLoop iterations s) (\<lambda>s'. sameProfileFlags (mwBlocks s) (mwBlocks s'))"
proof (induction iterations s rule: missingWeightsLoop.induct)
  case (1 iterations s)
  show ?case
    apply (subst missingWeightsLoop.simps)
    apply simp
    apply (rule post_conseq [OF missingWeightsPass_flags])
    apply (auto intro: sameProfileFlags_trans post_conseq [OF "1.IH"])
    done
qed

lemma fgComputeMissingBlockWeights_flags:
  "post (fgComputeMissingBlockWeights bbs) (\<lambda>r. sameProfileFlags bbs (fst r))"
  unfolding fgComputeMissingBlockWeights_def
  by (simp, rule post_conseq [OF missingWeightsLoop_flags]) simp

lemma skipInternal_less: "post (skipInternal bbs i) (\<lambda>k. k < length bbs)"
proof (induction bbs i rule: skipInternal.induct)
  case (1 bbs i)
  then show ?case
    by (subst skipInternal.simps) simp
qed

lemma scratch_block_flags:
  assumes "k < length bbs"
  shows "\<forall>i<length bbs. hasProfileWeight (bbs[0 := setRunRarely (setBBProfileWeight w (bbs ! 0))] ! i)
            = (hasProfileWeight (bbs ! i) \<or> i = 0)"
proof (intro allI impI)
  fix i assume "i < length bbs"
  then show "hasProfileWeight (bbs[0 := setRunRarely (setBBProfileWeight w (bbs ! 0))] ! i)
            = (hasProfileWeight (bbs ! i) \<or> i = 0)"
    by (cases "i = 0")
      (simp_all add: hasProfileWeight_def prof_flag_setRunRarely setBBProfileWeight_def)
qed

lemma fgComputeCalledCount_flags:
  "post (fgComputeCalledCount u scratch rw c) (\<lambda>c'.
     length (fgBBs c') = length (fgBBs c)
     \<and> (\<forall>i<length (fgBBs c). hasProfileWeight (fgBBs c' ! i)
            = (hasProfileWeight (fgBBs c ! i) \<or> (scratch \<and> i = 0))))"
  unfolding fgComputeCalledCount_def
  by (auto simp: scratch_block_flags intro!: post_conseq [OF skipInternal_less])


text \<open>
  C4 (as the code has it). For a block \<open>bDst\<close> without a profile weight that has a
  predecessor and whose sole successor \<open>n\<close> (\<^verbatim>\<open>bbNext\<close> for \<^verbatim>\<open>BBJ_NONE\<close>, \<^verbatim>\<open>bbJumpDest\<close>
  for \<^verbatim>\<open>BBJ_ALWAYS\<close>) has exactly one in-edge, which comes from \<open>bDst\<close>: the candidate
  weight is the weight of \<open>n\<close>, whether or not \<open>n\<close> has a profile weight, and the loop
  body stores it in \<open>bDst\<close> unless it is \<^verbatim>\<open>BB_MAX_WEIGHT\<close>. Nothing is assumed about the
  flags of \<open>n\<close>.
\<close>

theorem rule_B_takes_successor_weight:
  assumes "bDst < length (mwBlocks s)"
    and "\<not> hasProfileWeight (mwBlocks s ! bDst)"
    and "bbPreds (mwBlocks s ! bDst) \<noteq> []"
    and "\<forall>e \<in> set (bbPreds (mwBlocks s ! bDst)). flBlock e < length (mwBlocks s)"
    and "bOnlyNextOf (mwBlocks s) bDst = Some n" and "n < length (mwBlocks s)"
    and "bbPreds (mwBlocks s ! n) = edge # rest" and "flBlock edge = bDst"
    and "countOfInEdges (mwBlocks s ! n) = 1"
  shows "weightFromOnlyNext (mwBlocks s) bDst w1 = Inr (bbWeight (mwBlocks s ! n))
     \<and> (\<exists>s'. missingWeightForBlock bDst s = Inr s'
           \<and> bbWeight (mwBlocks s' ! bDst) =
               (if bbWeight (mwBlocks s ! n) = BB_MAX_WEIGHT then bbWeight (mwBlocks s ! bDst)
                else bbWeight (mwBlocks s ! n)))"
proof -
  have B: "weightFromOnlyNext (mwBlocks s) bDst w = Inr (bbWeight (mwBlocks s ! n))" for w
    using assms by (simp add: weightFromOnlyNext_def blockAt_def)
  obtain e es where pe: "bbPreds (mwBlocks s ! bDst) = e # es"
    using assms(3) by (cases "bbPreds (mwBlocks s ! bDst)") auto
  then have "flBlock e < length (mwBlocks s)" using assms(4) by simp
  then have "\<exists>w0. weightFromOnlyPred (mwBlocks s) bDst BB_MAX_WEIGHT = Inr w0"
    using pe by (simp add: weightFromOnlyPred_def blockAt_def)
  then obtain w0 where A: "weightFromOnlyPred (mwBlocks s) bDst BB_MAX_WEIGHT = Inr w0" ..
  show ?thesis
    using assms(1,2,3) A B
    by (auto simp: missingWeightForBlock_def setRunRarely_def hasProfileWeight_def)
qed



theorem rule_B_takes_successor_weight_witness:
  "\<not> hasProfileWeight (exampleChain False 7 ! 1)
   \<and> \<not> hasProfileWeight (exampleChain False 7 ! 2)
   \<and> bOnlyNextOf (exampleChain False 7) 1 = Some 2
   \<and> countOfInEdges (exampleChain False 7 ! 2) = 1
   \<and> weightFromOnlyNext (exampleChain False 7) 1 100 = Inr 7
   \<and> (\<exists>s'. missingWeightForBlock 1
              \<lparr>mwBlocks = exampleChain False 7, mwChanged = False, mwModified = False,
               mwReturnWeight = 0\<rparr> = Inr s'
          \<and> bbWeight (mwBlocks s' ! 1) = 7)"
proof -
  let ?s = "\<lparr>mwBlocks = exampleChain False 7, mwChanged = False, mwModified = False,
               mwReturnWeight = 0\<rparr>"
  have h: "1 < length (mwBlocks ?s)" "\<not> hasProfileWeight (mwBlocks ?s ! 1)"
    "bbPreds (mwBlocks ?s ! 1) \<noteq> []"
    "\<forall>e \<in> set (bbPreds (mwBlocks ?s ! 1)). flBlock e < length (mwBlocks ?s)"
    "bOnlyNextOf (mwBlocks ?s) 1 = Some 2" "2 < length (mwBlocks ?s)"
    "bbPreds (mwBlocks ?s ! 2) = edgeFrom 1 # []" "flBlock (edgeFrom 1) = 1"
    "countOfInEdges (mwBlocks ?s ! 2) = 1"
    by (simp_all add: exampleChain_def mkBlock_def edgeFrom_def hasProfileWeight_def
        bOnlyNextOf_def bbNext_def countOfInEdges_def)
  have f: "\<not> hasProfileWeight (exampleChain False 7 ! 2)" "bbWeight (exampleChain False 7 ! 2) = 7"
    "bbWeight (exampleChain False 7 ! 2) \<noteq> BB_MAX_WEIGHT"
    by (simp_all add: exampleChain_def mkBlock_def hasProfileWeight_def BB_MAX_WEIGHT_def)
  show ?thesis
    using rule_B_takes_successor_weight [OF h, of 100] h f by simp
qed


text \<open>The claim as stated fails: in the chain below the successor \<open>B2\<close> has no profile
  weight, and its weight 7 is still adopted for \<open>B1\<close>.\<close>

theorem rule_B_counterexample:
  "\<not> hasProfileWeight (exampleChain False 7 ! 1)
   \<and> bbPreds (exampleChain False 7 ! 1) \<noteq> []
   \<and> bbJumpKind (exampleChain False 7 ! 1) = BBJ_NONE
   \<and> bbNext (exampleChain False 7) 1 = Some 2
   \<and> countOfInEdges (exampleChain False 7 ! 2) = 1
   \<and> \<not> hasProfileWeight (exampleChain False 7 ! 2)
   \<and> bbWeight (exampleChain False 7 ! 1) = 1
   \<and> bbWeight (exampleChain False 7 ! 2) = 7
   \<and> fgComputeMissingBlockWeights (exampleChain False 7)
       = Inr ((exampleChain False 7)[1 := (exampleChain False 7 ! 1)\<lparr>bbWeight := 7\<rparr>], 0)"
  by (simp add: fgComputeMissingBlockWeights_def missingWeightsLoop.simps missingWeightsPass_def
      missingWeightForBlock_def weightFromOnlyPred_def weightFromOnlyNext_def bOnlyNextOf_def
      bbNext_def blockAt_def exampleChain_def mkBlock_def edgeFrom_def hasProfileWeight_def
      countOfInEdges_def setRunRarely_def BB_MAX_WEIGHT_def fadd_def float32_small)

text \<open>
  C5 (as the code has it). After \<^verbatim>\<open>fgComputeMissingBlockWeights\<close> and
  \<^verbatim>\<open>fgComputeCalledCount\<close>, a block has a profile weight exactly when it had one before
  (its weight came from profile data) or it is the scratch first block, which gets the
  called count. The propagation rules assign weights without setting the flag.
\<close>

theorem profile_flag_after_weights:
  assumes "fgComputeMissingBlockWeights bbs = Inr (bbs1, rw)"
    and "fgComputeCalledCount usingProfileWeights firstBBisScratch rw
           \<lparr>fgBBs = bbs1, fgCalledCount = calledCount\<rparr> = Inr c'"
  shows "length (fgBBs c') = length bbs
     \<and> (\<forall>i<length bbs. hasProfileWeight (fgBBs c' ! i)
            = (hasProfileWeight (bbs ! i) \<or> (firstBBisScratch \<and> i = 0)))"
  using postD [OF fgComputeMissingBlockWeights_flags assms(1)]
    postD [OF fgComputeCalledCount_flags assms(2)]
  by (simp add: sameProfileFlags_def)


theorem profile_flag_after_weights_witness:
  "fgComputeMissingBlockWeights exampleScratchLoop = Inr (exampleScratchLoop, 10)
   \<and> fgComputeCalledCount True True 10 \<lparr>fgBBs = exampleScratchLoop, fgCalledCount = 100\<rparr>
       = Inr \<lparr>fgBBs = exampleScratchLoop
                [0 := mkBlock 10 {BBF_INTERNAL, BBF_PROF_WEIGHT} BBJ_NONE None 1 []],
              fgCalledCount = 10\<rparr>
   \<and> \<not> hasProfileWeight (exampleScratchLoop ! 0)
   \<and> hasProfileWeight (exampleScratchLoop
         [0 := mkBlock 10 {BBF_INTERNAL, BBF_PROF_WEIGHT} BBJ_NONE None 1 []] ! 0)
   \<and> hasProfileWeight (exampleScratchLoop
         [0 := mkBlock 10 {BBF_INTERNAL, BBF_PROF_WEIGHT} BBJ_NONE None 1 []] ! 1)"
proof -
  have a: "fgComputeMissingBlockWeights exampleScratchLoop = Inr (exampleScratchLoop, 10)"
    by (simp add: fgComputeMissingBlockWeights_def missingWeightsLoop.simps missingWeightsPass_def
      missingWeightForBlock_def exampleScratchLoop_def mkBlock_def edgeFrom_def hasProfileWeight_def
      fadd_def float32_small)
  have b: "fgComputeCalledCount True True 10 \<lparr>fgBBs = exampleScratchLoop, fgCalledCount = 100\<rparr>
       = Inr \<lparr>fgBBs = exampleScratchLoop
                [0 := mkBlock 10 {BBF_INTERNAL, BBF_PROF_WEIGHT} BBJ_NONE None 1 []],
              fgCalledCount = 10\<rparr>"
    by (simp add: fgComputeCalledCount_def skipInternal.simps exampleScratchLoop_def mkBlock_def
        hasProfileWeight_def countOfInEdges_def setRunRarely_def setBBProfileWeight_def insert_commute)
  have c: "\<not> hasProfileWeight (exampleScratchLoop ! 0)" "length exampleScratchLoop = 4"
    "hasProfileWeight (exampleScratchLoop ! 1)"
    by (simp_all add: exampleScratchLoop_def mkBlock_def hasProfileWeight_def)
  show ?thesis
    using profile_flag_after_weights [OF a b, THEN conjunct2, rule_format, of 0]
      profile_flag_after_weights [OF a b, THEN conjunct2, rule_format, of 1] a b c
    by simp
qed


text \<open>The claim as stated fails: the middle block of the chain gets its weight 100 from
  the propagation and has no profile weight afterwards.\<close>

theorem profile_flag_after_weights_counterexample:
  "bbWeight (exampleChain True 100 ! 1) = 1
   \<and> weightFromOnlyPred (exampleChain True 100) 1 BB_MAX_WEIGHT = Inr 100
   \<and> fgComputeMissingBlockWeights (exampleChain True 100)
       = Inr ((exampleChain True 100)[1 := (exampleChain True 100 ! 1)\<lparr>bbWeight := 100\<rparr>], 100)
   \<and> fgComputeCalledCount True False 100
        \<lparr>fgBBs = (exampleChain True 100)[1 := (exampleChain True 100 ! 1)\<lparr>bbWeight := 100\<rparr>],
         fgCalledCount = 100\<rparr>
       = Inr \<lparr>fgBBs = (exampleChain True 100)[1 := (exampleChain True 100 ! 1)\<lparr>bbWeight := 100\<rparr>],
              fgCalledCount = 100\<rparr>
   \<and> bbWeight ((exampleChain True 100)[1 := (exampleChain True 100 ! 1)\<lparr>bbWeight := 100\<rparr>] ! 1) = 100
   \<and> \<not> hasProfileWeight
         ((exampleChain True 100)[1 := (exampleChain True 100 ! 1)\<lparr>bbWeight := 100\<rparr>] ! 1)"
  by (simp add: fgComputeMissingBlockWeights_def missingWeightsLoop.simps missingWeightsPass_def
      missingWeightForBlock_def weightFromOnlyPred_def weightFromOnlyNext_def bOnlyNextOf_def
      bbNext_def blockAt_def exampleChain_def mkBlock_def edgeFrom_def hasProfileWeight_def
      countOfInEdges_def setRunRarely_def BB_MAX_WEIGHT_def fgComputeCalledCount_def
      skipInternal.simps fadd_def float32_small)


section \<open>Instrumentation\<close>

lemma BuildClassProbeSchemaGen_alloc:
  "BuildClassProbeSchemaGen (env\<lparr>allocPgoInstrumentationBySchema := a\<rparr>) = BuildClassProbeSchemaGen env"
  by (intro ext) (simp add: BuildClassProbeSchemaGen_def Let_def split: option.splits)

lemma schemaForBlock_alloc:
  "schemaForBlock (env\<lparr>allocPgoInstrumentationBySchema := a\<rparr>) = schemaForBlock env"
  by (intro ext) (simp add: schemaForBlock_def BuildClassProbeSchemaGen_alloc)

lemma schemaForBlock_count:
  "post (schemaForBlock env b acc) (\<lambda>r. snd r = snd acc + (if countedBlock b then 1 else 0))"
  unfolding schemaForBlock_def
  by (auto simp: countedBlock_def intro!: post_all)

lemma schema_phase_count:
  "post (foldE (schemaForBlock env) bbs acc)
     (\<lambda>r. snd r = snd acc + int (length (filter countedBlock bbs)))"
proof (induction bbs arbitrary: acc)
  case Nil
  then show ?case by simp
next
  case (Cons b bbs)
  show ?case
    apply (simp only: foldE.simps post_bindE)
    apply (rule post_conseq [OF schemaForBlock_count])
    apply (rule post_conseq [OF Cons.IH])
    apply simp
    done
qed

lemma schemaForBlock_plain:
  assumes "\<not> probedBlock b" and "countedBlock b \<longrightarrow> 0 \<le> sint (bbCodeOffs b)"
  shows "schemaForBlock env b acc =
     Inr (if countedBlock b
          then (fst acc @ [\<lparr>Offset = 0, InstrumentationKind = BasicBlockIntCount,
                            ILOffset = bbCodeOffs b, Count = 1, Other = 0\<rparr>], snd acc + 1)
          else acc)"
  using assms by (simp add: schemaForBlock_def probedBlock_def countedBlock_def)

lemma schema_phase_plain:
  assumes "\<forall>b \<in> set bbs. \<not> probedBlock b"
    and "\<forall>b \<in> set bbs. countedBlock b \<longrightarrow> 0 \<le> sint (bbCodeOffs b)"
  shows "\<exists>schema. foldE (schemaForBlock env) bbs acc
           = Inr (schema, snd acc + int (length (filter countedBlock bbs)))
         \<and> length schema = length (fst acc) + length (filter countedBlock bbs)"
  using assms
proof (induction bbs arbitrary: acc)
  case Nil
  then show ?case by (cases acc) simp
next
  case (Cons b bbs)
  let ?acc1 = "if countedBlock b
          then (fst acc @ [\<lparr>Offset = 0, InstrumentationKind = BasicBlockIntCount,
                            ILOffset = bbCodeOffs b, Count = 1, Other = 0\<rparr>], snd acc + 1)
          else acc"
  have step: "schemaForBlock env b acc = Inr ?acc1"
    using Cons.prems by (intro schemaForBlock_plain) simp_all
  obtain schema where "foldE (schemaForBlock env) bbs ?acc1
           = Inr (schema, snd ?acc1 + int (length (filter countedBlock bbs)))"
      "length schema = length (fst ?acc1) + length (filter countedBlock bbs)"
    using Cons.IH [of ?acc1] Cons.prems by auto
  then show ?case using step by (cases "countedBlock b") simp_all
qed

text \<open>
  C7. With \<^verbatim>\<open>JitMinimalProfiling\<close> enabled, fewer than three imported non-internal blocks
  and a class probe count of zero, \<^verbatim>\<open>fgInstrumentMethod\<close> never returns a changed state:
  it returns the state it was given (same blocks, statements, calls and locals, and no
  allocation request recorded) or stops at an assertion; its result does not depend on
  the Host's allocator, which is never called; and it does return the unchanged state for a
  method with exactly one such block, no class-profile blocks and sane IL offsets.
\<close>

theorem minimal_profiling_opt_out:
  assumes "JitMinimalProfiling env > 0" and "compClassProbeCount env = 0"
    and "length (filter countedBlock (imBlocks c)) < 3"
  shows "(fgInstrumentMethod env c = Inr c \<or> (\<exists>err. fgInstrumentMethod env c = Inl err))
     \<and> fgInstrumentMethod (env\<lparr>allocPgoInstrumentationBySchema := alloc\<rparr>) c = fgInstrumentMethod env c
     \<and> (\<not> compIsForInlining env \<and> length (filter countedBlock (imBlocks c)) = 1
          \<and> (\<forall>b \<in> set (imBlocks c). \<not> probedBlock b)
          \<and> (\<forall>b \<in> set (imBlocks c). countedBlock b \<longrightarrow> 0 \<le> sint (bbCodeOffs b))
        \<longrightarrow> fgInstrumentMethod env c = Inr c)"
proof -
  let ?phase1 = "foldE (schemaForBlock env) (imBlocks c) ([], 0)"
  have early: "fgInstrumentMethod env' c =
      (if compIsForInlining env' then Inl NowayAssert
       else if int (length (filter countedBlock (imBlocks c))) \<noteq> int (length schema) then Inl AssertFailed
       else if length (filter countedBlock (imBlocks c)) \<noteq> 1 then Inl AssertFailed
       else Inr c)"
    if "foldE (schemaForBlock env') (imBlocks c) ([], 0) = Inr (schema, n)"
      "JitMinimalProfiling env' > 0" "compClassProbeCount env' = 0" for env' schema n
  proof -
    have n: "n = int (length (filter countedBlock (imBlocks c)))"
      using postD [OF schema_phase_count that(1)] by simp
    show ?thesis
      using that(2,3) assms(3) by (simp add: fgInstrumentMethod_def that(1) n)
  qed
  have err: "fgInstrumentMethod env' c = Inl (if compIsForInlining env' then NowayAssert else e)"
    if "foldE (schemaForBlock env') (imBlocks c) ([], 0) = Inl e" for env' e
    by (simp add: fgInstrumentMethod_def that)
  let ?env' = "env\<lparr>allocPgoInstrumentationBySchema := alloc\<rparr>"
  have same: "foldE (schemaForBlock ?env') (imBlocks c) ([], 0) = ?phase1"
    by (simp add: schemaForBlock_alloc)
  show ?thesis
  proof (cases ?phase1)
    case (Inl e)
    then show ?thesis using err [of env e] err [of ?env' e] same
      using schema_phase_plain [of "imBlocks c" env "([], 0)"] by auto
  next
    case (Inr r)
    obtain schema n where r: "r = (schema, n)" by (cases r)
    have 1: "fgInstrumentMethod env c = Inr c \<or> (\<exists>err. fgInstrumentMethod env c = Inl err)"
      using early [of env schema n] Inr r assms(1,2) by auto
    have 2: "fgInstrumentMethod ?env' c = fgInstrumentMethod env c"
      using early [of env schema n] early [of ?env' schema n] Inr r assms(1,2) same by simp
    have 3: "fgInstrumentMethod env c = Inr c"
      if "\<not> compIsForInlining env" "length (filter countedBlock (imBlocks c)) = 1"
        "\<forall>b \<in> set (imBlocks c). \<not> probedBlock b"
        "\<forall>b \<in> set (imBlocks c). countedBlock b \<longrightarrow> 0 \<le> sint (bbCodeOffs b)"
    proof -
      have "length schema = 1"
        using schema_phase_plain [OF that(3,4), of env "([], 0)"] Inr r that(2) by simp
      then show ?thesis
        using early [of env schema n] Inr r assms(1,2) that(1,2) by simp
    qed
    show ?thesis using 1 2 3 by blast
  qed
qed


theorem minimal_profiling_opt_out_witness:
  "JitMinimalProfiling (exampleEnv 1 1 0 0) > 0
   \<and> compClassProbeCount (exampleEnv 1 1 0 0) = 0
   \<and> length (filter countedBlock (imBlocks (exampleMethod [GT_LEAF 0] {BBF_IMPORTED}))) = 1
   \<and> fgInstrumentMethod (exampleEnv 1 1 0 0) (exampleMethod [GT_LEAF 0] {BBF_IMPORTED})
       = Inr (exampleMethod [GT_LEAF 0] {BBF_IMPORTED})
   \<and> allocRequests (exampleMethod [GT_LEAF 0] {BBF_IMPORTED}) = []"
proof -
  let ?env = "exampleEnv 1 1 0 0" and ?c = "exampleMethod [GT_LEAF 0] {BBF_IMPORTED}"
  have h: "JitMinimalProfiling ?env > 0" "compClassProbeCount ?env = 0"
    "length (filter countedBlock (imBlocks ?c)) < 3"
    by (simp_all add: exampleEnv_def exampleMethod_def countedBlock_def)
  have g: "\<not> compIsForInlining ?env" "length (filter countedBlock (imBlocks ?c)) = 1"
    "\<forall>b \<in> set (imBlocks ?c). \<not> probedBlock b"
    "\<forall>b \<in> set (imBlocks ?c). countedBlock b \<longrightarrow> 0 \<le> sint (bbCodeOffs b)"
    "allocRequests ?c = []"
    by (simp_all add: exampleEnv_def exampleMethod_def countedBlock_def probedBlock_def)
  show ?thesis
    using minimal_profiling_opt_out [OF h, of "allocPgoInstrumentationBySchema ?env"] h(1,2) g
    by simp
qed

lemma walk_restore_list:
  assumes "\<And>t st. t \<in> set ts \<Longrightarrow> probesHaveInfo t \<Longrightarrow>
      WalkTree (ClassProbeInserter schema mem False) st t
        = Inr ((fst st, fst (snd st) + int (countProbes t), snd (snd st)), restoreStubAddr t)"
    and "list_all probesHaveInfo ts"
  shows "WalkTrees (ClassProbeInserter schema mem False) st ts
        = Inr ((fst st, fst (snd st) + int (sum_list (map countProbes ts)), snd (snd st)),
               map restoreStubAddr ts)"
  using assms
proof (induction ts arbitrary: st)
  case Nil
  then show ?case by simp
next
  case (Cons t ts)
  have t: "WalkTree (ClassProbeInserter schema mem False) st t
        = Inr ((fst st, fst (snd st) + int (countProbes t), snd (snd st)), restoreStubAddr t)"
    using Cons.prems by simp
  have ts: "WalkTrees (ClassProbeInserter schema mem False) st' ts
        = Inr ((fst st', fst (snd st') + int (sum_list (map countProbes ts)), snd (snd st')),
               map restoreStubAddr ts)" for st'
    using Cons.IH [of st'] Cons.prems by simp
  show ?case by (simp add: t ts)
qed

lemma walk_restore:
  "probesHaveInfo t \<Longrightarrow>
     WalkTree (ClassProbeInserter schema mem False) st t
        = Inr ((fst st, fst (snd st) + int (countProbes t), snd (snd st)), restoreStubAddr t)"
proof (induction t arbitrary: st)
  case (GT_CALL call thisArg args)
  have args: "WalkTrees (ClassProbeInserter schema mem False) st' args
        = Inr ((fst st', fst (snd st') + int (sum_list (map countProbes args)), snd (snd st')),
               map restoreStubAddr args)" for st'
    using GT_CALL.IH(2) GT_CALL.prems by (intro walk_restore_list) simp_all
  have thisw: "WalkThis (ClassProbeInserter schema mem False) st' thisArg
        = Inr ((fst st', fst (snd st') + int (case thisArg of None \<Rightarrow> 0 | Some t \<Rightarrow> countProbes t),
                snd (snd st')), map_option restoreStubAddr thisArg)" for st'
  proof (cases thisArg)
    case None
    then show ?thesis by simp
  next
    case (Some t)
    then show ?thesis using GT_CALL.IH(1) [of t st'] GT_CALL.prems by simp
  qed
  show ?case
  proof (cases "probedCall call")
    case False
    then show ?thesis by (simp add: probedCall_def [symmetric] args thisw)
  next
    case True
    then obtain info where info: "gtClassProfileCandidateInfo call = Some info"
      using GT_CALL.prems by auto
    have f: "ClassProbeInserter schema mem False st call thisArg =
        Inr ((fst st, fst (snd st) + 1, snd (snd st)), call\<lparr>gtStubCallStubAddr := stubAddr info\<rparr>, None)"
      by (cases st) (simp add: ClassProbeInserter_def info)
    show ?thesis
      using True by (simp add: probedCall_def [symmetric] f args thisw info)
  qed
next
  case (GT_OPER oper operands)
  have "WalkTrees (ClassProbeInserter schema mem False) st operands
        = Inr ((fst st, fst (snd st) + int (sum_list (map countProbes operands)), snd (snd st)),
               map restoreStubAddr operands)"
    using GT_OPER.IH GT_OPER.prems by (intro walk_restore_list) simp_all
  then show ?case by simp
qed simp_all

lemma walk_schema_list:
  assumes "\<And>t schema. t \<in> set ts \<Longrightarrow>
      post (WalkTree (BuildClassProbeSchemaGen env) schema t)
        (\<lambda>r. length (fst r) = length schema + 2 * countProbes t \<and> probesHaveInfo t)"
  shows "post (WalkTrees (BuildClassProbeSchemaGen env) schema ts)
        (\<lambda>r. length (fst r) = length schema + 2 * sum_list (map countProbes ts)
              \<and> list_all probesHaveInfo ts)"
  using assms
proof (induction ts arbitrary: schema)
  case Nil
  then show ?case by simp
next
  case (Cons t ts)
  show ?case
    apply (simp only: WalkTree.simps WalkThis.simps WalkTrees.simps post_bindE)
    apply (rule post_conseq [OF Cons.prems [of t schema]])
     apply simp
    apply (clarsimp)
    apply (rule post_conseq [OF Cons.IH])
     apply (rule Cons.prems)
     apply simp
    apply clarsimp
    done
qed

lemma walk_schema:
  "post (WalkTree (BuildClassProbeSchemaGen env) schema t)
        (\<lambda>r. length (fst r) = length schema + 2 * countProbes t \<and> probesHaveInfo t)"
proof (induction t arbitrary: schema)
  case (GT_CALL call thisArg args)
  have args: "post (WalkTrees (BuildClassProbeSchemaGen env) schema' args)
        (\<lambda>r. length (fst r) = length schema' + 2 * sum_list (map countProbes args)
              \<and> list_all probesHaveInfo args)" for schema'
    using GT_CALL.IH(2) by (intro walk_schema_list) simp
  have thisw: "post (WalkThis (BuildClassProbeSchemaGen env) schema' thisArg)
        (\<lambda>r. length (fst r) = length schema' + 2 * (case thisArg of None \<Rightarrow> 0 | Some t \<Rightarrow> countProbes t)
              \<and> (case thisArg of None \<Rightarrow> True | Some t \<Rightarrow> probesHaveInfo t))" for schema'
  proof (cases thisArg)
    case None
    then show ?thesis by simp
  next
    case (Some t)
    show ?thesis
      unfolding Some
      by (simp, rule post_conseq [OF GT_CALL.IH(1) [of t schema']]) (simp_all add: Some split_beta)
  qed
  have rest: "post (bindE (WalkThis (BuildClassProbeSchemaGen env) a thisArg) (\<lambda>(s2, thisArg2).
                bindE (WalkTrees (BuildClassProbeSchemaGen env) s2 args) (\<lambda>(s3, args3).
                  Inr (s3, X thisArg2 args3))))
        (\<lambda>r. length (fst r) = length a
                 + 2 * (case thisArg of None \<Rightarrow> 0 | Some t \<Rightarrow> countProbes t)
                 + 2 * sum_list (map countProbes args)
              \<and> (case thisArg of None \<Rightarrow> True | Some t \<Rightarrow> probesHaveInfo t)
              \<and> list_all probesHaveInfo args)" for a X
    apply (simp only: post_bindE)
    apply (rule post_conseq [OF thisw])
    apply (clarsimp simp del: post_bindE)
    apply (simp only: post_bindE)
    apply (rule post_conseq [OF args])
    apply clarsimp
    done
  show ?case
  proof (cases "probedCall call")
    case False
    show ?thesis
      using False
      by (simp add: probedCall_def [symmetric] del: post_bindE, intro post_conseq [OF rest]) simp
  next
    case True
    show ?thesis
    proof (cases "BuildClassProbeSchemaGen env schema call thisArg")
      case (Inl e)
      then show ?thesis using True by (simp add: probedCall_def [symmetric])
    next
      case (Inr r)
      then obtain schema2 where r: "r = (schema2, call, None)"
        and l: "length schema2 = length schema + 2"
        and i: "gtClassProfileCandidateInfo call \<noteq> None"
        by (auto simp: BuildClassProbeSchemaGen_def Let_def split: option.splits if_splits)
      show ?thesis
        using True i
        by (simp add: probedCall_def [symmetric] Inr r del: post_bindE,
            intro post_conseq [OF rest]) (simp add: l)
    qed
  qed
next
  case (GT_OPER oper operands)
  have "post (WalkTrees (BuildClassProbeSchemaGen env) schema operands)
        (\<lambda>r. length (fst r) = length schema + 2 * sum_list (map countProbes operands)
              \<and> list_all probesHaveInfo operands)"
    using GT_OPER.IH by (intro walk_schema_list) simp
  then show ?case
    by (simp, elim post_conseq) clarsimp
qed simp_all

lemma schemaForBlock_probe:
  "post (schemaForBlock env b acc)
     (\<lambda>r. length (fst r) = length (fst acc) + 2 * blockProbes b + (if countedBlock b then 1 else 0)
          \<and> snd r = snd acc + (if countedBlock b then 1 else 0)
          \<and> (probedBlock b \<longrightarrow> list_all probesHaveInfo (bbStmts b)))"
proof -
  have w: "post (WalkTrees (BuildClassProbeSchemaGen env) (fst acc) (bbStmts b))
        (\<lambda>r. length (fst r) = length (fst acc) + 2 * sum_list (map countProbes (bbStmts b))
              \<and> list_all probesHaveInfo (bbStmts b))"
    by (rule walk_schema_list) (rule walk_schema)
  show ?thesis
  proof (cases "BBF_IMPORTED \<in> bbFlags b")
    case False
    then show ?thesis
      by (simp add: schemaForBlock_def blockProbes_def probedBlock_def countedBlock_def)
  next
    case imp: True
    show ?thesis
    proof (cases "BBF_HAS_CLASS_PROFILE \<in> bbFlags b")
      case False
      then show ?thesis using imp
        by (simp add: schemaForBlock_def blockProbes_def probedBlock_def countedBlock_def)
    next
      case True
      show ?thesis using imp True
        by (auto simp: schemaForBlock_def blockProbes_def probedBlock_def countedBlock_def
            intro!: post_conseq [OF w])
    qed
  qed
qed

lemma schema_phase_probe:
  "post (foldE (schemaForBlock env) bbs acc)
     (\<lambda>r. length (fst r) = length (fst acc) + 2 * sum_list (map blockProbes bbs)
                            + length (filter countedBlock bbs)
          \<and> snd r = snd acc + int (length (filter countedBlock bbs))
          \<and> (\<forall>b \<in> set bbs. probedBlock b \<longrightarrow> list_all probesHaveInfo (bbStmts b)))"
proof (induction bbs arbitrary: acc)
  case Nil
  then show ?case by simp
next
  case (Cons b bbs)
  show ?case
    apply (simp only: foldE.simps post_bindE)
    apply (rule post_conseq [OF schemaForBlock_probe])
    apply (rule post_conseq [OF Cons.IH])
    apply auto
    done
qed

lemma instrumentBlock_restore:
  assumes "i < length (isBlocks st)"
    and "probedBlock (isBlocks st ! i) \<longrightarrow> list_all probesHaveInfo (bbStmts (isBlocks st ! i))"
    and "JitClassProfiling env > 0 \<longrightarrow>
           \<not> JIT_FLAG_PREJIT env \<and> int (blockProbes (isBlocks st ! i)) \<le> countOfCalls st"
  shows "instrumentBlock env schema mem False i st =
     Inr (st\<lparr>isBlocks := (isBlocks st)[i := restoreBlock env (isBlocks st ! i)],
            countOfCalls := countOfCalls st
               - (if JitClassProfiling env > 0 then int (blockProbes (isBlocks st ! i)) else 0),
            countOfBlocks := countOfBlocks st - (if countedBlock (isBlocks st ! i) then 1 else 0)\<rparr>)"
proof -
  let ?b = "isBlocks st ! i"
  have w: "list_all probesHaveInfo (bbStmts ?b) \<Longrightarrow>
     WalkTrees (ClassProbeInserter schema mem False) (currentSchemaIndex st, 0, isLvaTable st) (bbStmts ?b)
        = Inr ((currentSchemaIndex st, int (sum_list (map countProbes (bbStmts ?b))), isLvaTable st),
               map restoreStubAddr (bbStmts ?b))"
    using walk_restore_list [of "bbStmts ?b" schema mem "(currentSchemaIndex st, 0, isLvaTable st)"]
      walk_restore by simp
  show ?thesis
  proof (cases "JitClassProfiling env > 0 \<and> probedBlock ?b")
    case False
    then show ?thesis using assms
      by (auto simp: instrumentBlock_def restoreBlock_def probedBlock_def countedBlock_def
          blockProbes_def)
  next
    case True
    then have "list_all probesHaveInfo (bbStmts ?b)" using assms(2) by simp
    note w' = w [OF this]
    show ?thesis using True assms(1,3)
      by (auto simp: instrumentBlock_def restoreBlock_def probedBlock_def countedBlock_def
          blockProbes_def w')
  qed
qed


lemma update_take_drop:
  "k < length xs \<Longrightarrow>
     (map f (take k xs) @ drop k xs)[k := f (xs ! k)] = map f (take (Suc k) xs) @ drop (Suc k) xs"
  by (simp add: take_Suc_conv_app_nth list_update_append Cons_nth_drop_Suc [symmetric])

lemma nth_take_drop: "k < length xs \<Longrightarrow> (map f (take k xs) @ drop k xs) ! k = xs ! k"
  by (simp add: nth_append)

lemma sum_list_take_le: "sum_list (take k (xs :: nat list)) \<le> sum_list xs"
proof -
  have "sum_list xs = sum_list (take k xs) + sum_list (drop k xs)"
    by (metis append_take_drop_id sum_list_append)
  then show ?thesis by simp
qed

lemma restore_phase:
  assumes info: "\<forall>b \<in> set bbs. probedBlock b \<longrightarrow> list_all probesHaveInfo (bbStmts b)"
    and cp: "JitClassProfiling env > 0 \<longrightarrow>
           \<not> JIT_FLAG_PREJIT env \<and> int (sum_list (map blockProbes bbs)) \<le> cc"
    and k: "k \<le> length bbs"
  shows "foldE (instrumentBlock env schema mem False) [0..<k]
           \<lparr>isBlocks = bbs, isLvaTable = lva, currentSchemaIndex = 0, countOfCalls = cc,
            countOfBlocks = cb, addrOfFirstExecutionCount = 0\<rparr>
         = Inr \<lparr>isBlocks = map (restoreBlock env) (take k bbs) @ drop k bbs, isLvaTable = lva,
                currentSchemaIndex = 0,
                countOfCalls = cc - (if JitClassProfiling env > 0
                                      then int (sum_list (map blockProbes (take k bbs))) else 0),
                countOfBlocks = cb - int (length (filter countedBlock (take k bbs))),
                addrOfFirstExecutionCount = 0\<rparr>"
  using k
proof (induction k)
  case 0
  then show ?case by simp
next
  case (Suc k)
  let ?st = "\<lparr>isBlocks = map (restoreBlock env) (take k bbs) @ drop k bbs, isLvaTable = lva,
                currentSchemaIndex = 0,
                countOfCalls = cc - (if JitClassProfiling env > 0
                                      then int (sum_list (map blockProbes (take k bbs))) else 0),
                countOfBlocks = cb - int (length (filter countedBlock (take k bbs))),
                addrOfFirstExecutionCount = 0\<rparr>"
  have klt: "k < length bbs" using Suc.prems by simp
  have nth: "isBlocks ?st ! k = bbs ! k" using klt by (simp add: nth_append)
  have len: "k < length (isBlocks ?st)" using klt by simp
  have mem: "bbs ! k \<in> set bbs" using klt by simp
  have tk: "take (Suc k) bbs = take k bbs @ [bbs ! k]"
    using klt by (simp add: take_Suc_conv_app_nth)
  have le: "sum_list (map blockProbes (take (Suc k) bbs)) \<le> sum_list (map blockProbes bbs)"
    using sum_list_take_le [of "Suc k" "map blockProbes bbs"] by (simp add: take_map)
  have a2: "probedBlock (isBlocks ?st ! k) \<longrightarrow> list_all probesHaveInfo (bbStmts (isBlocks ?st ! k))"
    using info mem nth by simp
  have a3: "JitClassProfiling env > 0 \<longrightarrow>
           \<not> JIT_FLAG_PREJIT env \<and> int (blockProbes (isBlocks ?st ! k)) \<le> countOfCalls ?st"
    using cp le nth by (auto simp: tk)
  have step: "instrumentBlock env schema mem False k ?st =
      Inr \<lparr>isBlocks = map (restoreBlock env) (take (Suc k) bbs) @ drop (Suc k) bbs, isLvaTable = lva,
                currentSchemaIndex = 0,
                countOfCalls = cc - (if JitClassProfiling env > 0
                                      then int (sum_list (map blockProbes (take (Suc k) bbs))) else 0),
                countOfBlocks = cb - int (length (filter countedBlock (take (Suc k) bbs))),
                addrOfFirstExecutionCount = 0\<rparr>"
    unfolding instrumentBlock_restore [OF len a2 a3] nth
    using update_take_drop [OF klt, of "restoreBlock env"]
    by (simp add: tk)
  have ih: "foldE (instrumentBlock env schema mem False) [0..<k]
           \<lparr>isBlocks = bbs, isLvaTable = lva, currentSchemaIndex = 0, countOfCalls = cc,
            countOfBlocks = cb, addrOfFirstExecutionCount = 0\<rparr> = Inr ?st"
    using Suc.IH klt by simp
  have "foldE (instrumentBlock env schema mem False) [0..<Suc k]
           \<lparr>isBlocks = bbs, isLvaTable = lva, currentSchemaIndex = 0, countOfCalls = cc,
            countOfBlocks = cb, addrOfFirstExecutionCount = 0\<rparr>
        = bindE (Inr ?st) (foldE (instrumentBlock env schema mem False) [k])"
    by (simp only: upt_Suc_append [OF le0] foldE_append ih)
  also have "\<dots> = instrumentBlock env schema mem False k ?st"
    by (simp add: bindE_def split: sum.splits)
  finally show ?case by (simp only: step)
qed

text \<open>What the second walk does when nothing is instrumented, with the test of
  \<^verbatim>\<open>JitClassProfiling\<close> it makes for every block.\<close>

lemma restore_where_class_profiling:
  assumes "\<not> compIsForInlining env"
    and "foldE (schemaForBlock env) (imBlocks c) ([], 0) = Inr (schema, n)"
    and "compClassProbeCount env * 2 + n = int (length schema)"
    and "\<not> (JitMinimalProfiling env > 0 \<and> n < 3 \<and> compClassProbeCount env = 0)"
    and "allocPgoInstrumentationBySchema env schema = (res, schema1, profileMemory)"
    and "JitClassProfiling env > 0 \<longrightarrow> \<not> JIT_FLAG_PREJIT env"
  shows "(res = E_NOTIMPL \<longrightarrow>
           fgInstrumentMethod env c =
             Inr (c\<lparr>imBlocks := map (restoreBlock env) (imBlocks c),
                    allocRequests := allocRequests c @ [schema]\<rparr>))
       \<and> (\<not> SUCCEEDED res \<and> res \<noteq> E_NOTIMPL \<longrightarrow> fgInstrumentMethod env c = Inl NowayAssert)"
proof -
  have p: "length schema = 2 * sum_list (map blockProbes (imBlocks c))
                            + length (filter countedBlock (imBlocks c))"
    "n = int (length (filter countedBlock (imBlocks c)))"
    "\<forall>b \<in> set (imBlocks c). probedBlock b \<longrightarrow> list_all probesHaveInfo (bbStmts b)"
    using postD [OF schema_phase_probe assms(2)] by simp_all
  have cc: "int (sum_list (map blockProbes (imBlocks c))) = compClassProbeCount env"
    using p(1,2) assms(3) by simp
  have nots: "\<not> SUCCEEDED E_NOTIMPL" by (simp add: SUCCEEDED_def E_NOTIMPL_def)
  have ph: "foldE (instrumentBlock env schema1 profileMemory False) [0..<length (imBlocks c)]
           \<lparr>isBlocks = imBlocks c, isLvaTable = lvaTable c, currentSchemaIndex = 0,
            countOfCalls = compClassProbeCount env, countOfBlocks = n,
            addrOfFirstExecutionCount = 0\<rparr>
         = Inr \<lparr>isBlocks = map (restoreBlock env) (imBlocks c), isLvaTable = lvaTable c,
                currentSchemaIndex = 0,
                countOfCalls = compClassProbeCount env
                   - (if JitClassProfiling env > 0
                      then int (sum_list (map blockProbes (imBlocks c))) else 0),
                countOfBlocks = n - int (length (filter countedBlock (imBlocks c))),
                addrOfFirstExecutionCount = 0\<rparr>"
    using restore_phase [OF p(3), of env "compClassProbeCount env" "length (imBlocks c)"
        schema1 profileMemory "lvaTable c" n] assms(6) cc
    by simp
  have nc: "(JitMinimalProfiling env > 0 \<and> n < 3 \<and> compClassProbeCount env = 0) = False"
    using assms(4) by simp
  have 1: "fgInstrumentMethod env c =
             Inr (c\<lparr>imBlocks := map (restoreBlock env) (imBlocks c),
                    allocRequests := allocRequests c @ [schema]\<rparr>)" if "res = E_NOTIMPL"
    using assms(1,3) that nots
    by (simp add: fgInstrumentMethod_def assms(2) assms(5) nc Let_def ph)
  have 2: "fgInstrumentMethod env c = Inl NowayAssert" if "\<not> SUCCEEDED res" "res \<noteq> E_NOTIMPL"
    using assms(1,3) that
    by (simp add: fgInstrumentMethod_def assms(2) assms(5) nc Let_def)
  show ?thesis using 1 2 by blast
qed


text \<open>A tree without a virtual, non-indirect call has nothing to restore.\<close>

lemma restore_no_probes: "countProbes t = 0 \<Longrightarrow> restoreStubAddr t = t"
proof (induction t)
  case (GT_CALL call thisArg args)
  have n: "\<not> probedCall call" "(case thisArg of None \<Rightarrow> 0 | Some t \<Rightarrow> countProbes t) = 0"
    "sum_list (map countProbes args) = 0"
    using GT_CALL.prems by (simp_all split: if_splits)
  have a: "map restoreStubAddr args = args"
    using GT_CALL.IH(2) n(3) by (intro map_idI) simp
  have t: "map_option restoreStubAddr thisArg = thisArg"
    using GT_CALL.IH(1) n(2) by (cases thisArg) simp_all
  show ?case using n(1) a t by simp
next
  case (GT_OPER oper operands)
  have "map restoreStubAddr operands = operands"
    using GT_OPER by (intro map_idI) simp
  then show ?case by simp
qed simp_all

text \<open>When the probes counted at import imply that class profiling is on, and the blocks
  with a class profile are imported, the test of \<^verbatim>\<open>JitClassProfiling\<close> makes no
  difference.\<close>

lemma restoreBlock_consistent:
  assumes cc: "int (sum_list (map blockProbes bbs)) = compClassProbeCount env"
    and cons: "0 < compClassProbeCount env \<longrightarrow> 0 < JitClassProfiling env"
    and imp: "\<forall>b \<in> set bbs. BBF_HAS_CLASS_PROFILE \<in> bbFlags b \<longrightarrow> BBF_IMPORTED \<in> bbFlags b"
  shows "map (restoreBlock env) bbs = map restoreClassProfileBlock bbs"
proof (rule map_cong [OF refl])
  fix b assume b: "b \<in> set bbs"
  have pb: "probedBlock b = (BBF_HAS_CLASS_PROFILE \<in> bbFlags b)"
    using imp b by (auto simp: probedBlock_def)
  show "restoreBlock env b = restoreClassProfileBlock b"
  proof (cases "0 < JitClassProfiling env")
    case True
    then show ?thesis by (simp add: restoreBlock_def restoreClassProfileBlock_def pb)
  next
    case False
    then have "\<not> 0 < compClassProbeCount env" using cons by blast
    then have "int (sum_list (map blockProbes bbs)) \<le> 0" using cc by simp
    then have "sum_list (map blockProbes bbs) = 0" by (simp only: of_nat_le_0_iff)
    then have "blockProbes b = 0" using b by simp
    then have "map restoreStubAddr (bbStmts b) = bbStmts b" if "BBF_HAS_CLASS_PROFILE \<in> bbFlags b"
      using that pb by (intro map_idI) (simp add: blockProbes_def restore_no_probes)
    then show ?thesis using False by (simp add: restoreBlock_def restoreClassProfileBlock_def)
  qed
qed

text \<open>
  C6. When the allocation is reached and the Host returns \<^verbatim>\<open>E_NOTIMPL\<close>,
  \<^verbatim>\<open>fgInstrumentMethod\<close> completes the second walk and returns: every virtual
  non-indirect call in every \<^verbatim>\<open>BBF_HAS_CLASS_PROFILE\<close> block has
  \<^verbatim>\<open>gtStubCallStubAddr\<close> set to the \<^verbatim>\<open>stubAddr\<close> saved in its candidate info; nothing
  else in any block changes (no \<^verbatim>\<open>this\<close> argument is rewritten, no counter is
  inserted) and the table of locals is the same (no temporary). Any other failure of
  the allocation is fatal. The method is as the importer leaves it: the blocks with a
  class profile are imported, and probes were counted only with class profiling on.
\<close>

theorem not_implemented_restores_stub_addresses:
  assumes "\<not> compIsForInlining env"
    and "foldE (schemaForBlock env) (imBlocks c) ([], 0) = Inr (schema, n)"
    and "compClassProbeCount env * 2 + n = int (length schema)"
    and "\<not> (JitMinimalProfiling env > 0 \<and> n < 3 \<and> compClassProbeCount env = 0)"
    and "allocPgoInstrumentationBySchema env schema = (res, schema1, profileMemory)"
    and "JitClassProfiling env > 0 \<longrightarrow> \<not> JIT_FLAG_PREJIT env"
    and "0 < compClassProbeCount env \<longrightarrow> 0 < JitClassProfiling env"
    and "\<forall>b \<in> set (imBlocks c). BBF_HAS_CLASS_PROFILE \<in> bbFlags b \<longrightarrow> BBF_IMPORTED \<in> bbFlags b"
  shows "(res = E_NOTIMPL \<longrightarrow>
           fgInstrumentMethod env c =
             Inr (c\<lparr>imBlocks := map restoreClassProfileBlock (imBlocks c),
                    allocRequests := allocRequests c @ [schema]\<rparr>))
       \<and> (\<not> SUCCEEDED res \<and> res \<noteq> E_NOTIMPL \<longrightarrow> fgInstrumentMethod env c = Inl NowayAssert)"
proof -
  have p: "length schema = 2 * sum_list (map blockProbes (imBlocks c))
                            + length (filter countedBlock (imBlocks c))"
    "n = int (length (filter countedBlock (imBlocks c)))"
    using postD [OF schema_phase_probe assms(2)] by simp_all
  have cc: "int (sum_list (map blockProbes (imBlocks c))) = compClassProbeCount env"
    using p assms(3) by simp
  have "map (restoreBlock env) (imBlocks c) = map restoreClassProfileBlock (imBlocks c)"
    by (rule restoreBlock_consistent [OF cc assms(7) assms(8)])
  then show ?thesis
    using restore_where_class_profiling [OF assms(1-6)] by simp
qed

lemma example_schema_phase:
  "foldE (schemaForBlock (exampleEnv m cp 1 hr))
     (imBlocks (exampleMethod [exampleVirtualCall] {BBF_IMPORTED, BBF_HAS_CLASS_PROFILE})) ([], 0)
   = Inr (exampleProbeSchema, 1)"
  by (simp add: schemaForBlock_def BuildClassProbeSchemaGen_def exampleEnv_def exampleMethod_def
      exampleVirtualCall_def exampleProbeSchema_def IsVirtual_def)

theorem not_implemented_restores_stub_addresses_witness:
  "fgInstrumentMethod (exampleEnv 0 1 1 E_NOTIMPL)
      (exampleMethod [exampleVirtualCall] {BBF_IMPORTED, BBF_HAS_CLASS_PROFILE})
     = Inr ((exampleMethod [exampleVirtualCallRestored] {BBF_IMPORTED, BBF_HAS_CLASS_PROFILE})
              \<lparr>allocRequests := [exampleProbeSchema]\<rparr>)
   \<and> lvaTable (exampleMethod [exampleVirtualCallRestored] {BBF_IMPORTED, BBF_HAS_CLASS_PROFILE})
       = lvaTable (exampleMethod [exampleVirtualCall] {BBF_IMPORTED, BBF_HAS_CLASS_PROFILE})
   \<and> fgInstrumentMethod (exampleEnv 0 1 1 (- 1))
      (exampleMethod [exampleVirtualCall] {BBF_IMPORTED, BBF_HAS_CLASS_PROFILE})
     = Inl NowayAssert"
proof -
  let ?c = "exampleMethod [exampleVirtualCall] {BBF_IMPORTED, BBF_HAS_CLASS_PROFILE}"
  have h: "\<not> compIsForInlining (exampleEnv 0 1 1 hr)"
    "compClassProbeCount (exampleEnv 0 1 1 hr) * 2 + 1 = int (length exampleProbeSchema)"
    "\<not> (JitMinimalProfiling (exampleEnv 0 1 1 hr) > 0 \<and> (1::int) < 3
         \<and> compClassProbeCount (exampleEnv 0 1 1 hr) = 0)"
    "allocPgoInstrumentationBySchema (exampleEnv 0 1 1 hr) exampleProbeSchema
       = (hr, exampleProbeSchema, 4096)"
    "JitClassProfiling (exampleEnv 0 1 1 hr) > 0 \<longrightarrow> \<not> JIT_FLAG_PREJIT (exampleEnv 0 1 1 hr)"
    "0 < compClassProbeCount (exampleEnv 0 1 1 hr) \<longrightarrow> 0 < JitClassProfiling (exampleEnv 0 1 1 hr)"
    for hr
    by (simp_all add: exampleEnv_def exampleProbeSchema_def)
  have i: "\<forall>b \<in> set (imBlocks ?c). BBF_HAS_CLASS_PROFILE \<in> bbFlags b \<longrightarrow> BBF_IMPORTED \<in> bbFlags b"
    by (simp add: exampleMethod_def)
  have r: "map restoreClassProfileBlock (imBlocks ?c)
      = imBlocks (exampleMethod [exampleVirtualCallRestored] {BBF_IMPORTED, BBF_HAS_CLASS_PROFILE})"
    by (simp add: restoreClassProfileBlock_def exampleMethod_def
        exampleVirtualCall_def exampleVirtualCallRestored_def probedCall_def IsVirtual_def)
  have f: "\<not> SUCCEEDED (- 1)" "- 1 \<noteq> E_NOTIMPL"
    by (simp_all add: SUCCEEDED_def E_NOTIMPL_def)
  show ?thesis
    using not_implemented_restores_stub_addresses
        [OF h(1) example_schema_phase h(2) h(3) h(4) h(5) h(6) i, of E_NOTIMPL]
      not_implemented_restores_stub_addresses
        [OF h(1) example_schema_phase h(2) h(3) h(4) h(5) h(6) i, of "- 1"] r f
    by (simp add: exampleMethod_def)
qed


section \<open>Edge weights\<close>

subsection \<open>Updating one edge\<close>

lemma length_putEdge [simp]: "length (putEdge bbs d k e) = length bbs"
  by (simp add: putEdge_def)

lemma edgeAt_putEdge_same:
  "d < length bbs \<Longrightarrow> k < length (bbPreds (bbs ! d)) \<Longrightarrow> edgeAt (putEdge bbs d k e) d k = e"
  by (simp add: putEdge_def edgeAt_def)

lemma putEdge_nth:
  "putEdge bbs d k e ! j =
     (if j = d \<and> d < length bbs then (bbs ! d)\<lparr>bbPreds := (bbPreds (bbs ! d))[k := e]\<rparr> else bbs ! j)"
  by (cases "d < length bbs") (simp_all add: putEdge_def nth_list_update list_update_beyond)

lemma putEdge_static:
  "bbWeight (putEdge bbs d k e ! j) = bbWeight (bbs ! j)"
  "bbFlags (putEdge bbs d k e ! j) = bbFlags (bbs ! j)"
  "bbJumpKind (putEdge bbs d k e ! j) = bbJumpKind (bbs ! j)"
  "bbJumpDest (putEdge bbs d k e ! j) = bbJumpDest (bbs ! j)"
  "length (bbPreds (putEdge bbs d k e ! j)) = length (bbPreds (bbs ! j))"
  by (simp_all add: putEdge_nth)

subsection \<open>Narrowed ranges\<close>

lemma tightOK_refl: "tightOK e e"
  by (simp add: tightOK_def)

lemma tightOK_trans: "tightOK a b \<Longrightarrow> tightOK b c \<Longrightarrow> tightOK a c"
  by (auto simp: tightOK_def)

lemma tightens_refl: "tightens bbs bbs"
  by (simp add: tightens_def list_all2_refl tightOK_refl)

lemma tightens_trans:
  assumes "tightens a b" and "tightens b c"
  shows "tightens a c"
  unfolding tightens_def
proof (rule list_all2_trans [OF _ assms(1) [unfolded tightens_def] assms(2) [unfolded tightens_def]])
  fix x y z :: BasicBlock
  assume 1: "x\<lparr>bbPreds := []\<rparr> = y\<lparr>bbPreds := []\<rparr> \<and> list_all2 tightOK (bbPreds x) (bbPreds y)"
    and 2: "y\<lparr>bbPreds := []\<rparr> = z\<lparr>bbPreds := []\<rparr> \<and> list_all2 tightOK (bbPreds y) (bbPreds z)"
  have "list_all2 tightOK (bbPreds x) (bbPreds z)"
    using 1 2 list_all2_trans [of tightOK tightOK tightOK] tightOK_trans by blast
  moreover have "x\<lparr>bbPreds := []\<rparr> = z\<lparr>bbPreds := []\<rparr>"
    using 1 2 by (elim conjE) (rule trans)
  ultimately show "x\<lparr>bbPreds := []\<rparr> = z\<lparr>bbPreds := []\<rparr> \<and> list_all2 tightOK (bbPreds x) (bbPreds z)"
    by (rule conjI [rotated])
qed

lemma tightens_putEdge:
  assumes "tightOK (edgeAt bbs d k) e'"
  shows "tightens bbs (putEdge bbs d k e')"
proof -
  have p: "list_all2 tightOK (bbPreds (bbs ! d)) ((bbPreds (bbs ! d))[k := e'])"
    using list_all2_update_cong [of tightOK "bbPreds (bbs ! d)" "bbPreds (bbs ! d)" "bbPreds (bbs ! d) ! k" e' k]
      assms by (simp add: list_all2_refl tightOK_refl edgeAt_def)
  have "list_all2 (\<lambda>b b'. b\<lparr>bbPreds := []\<rparr> = b'\<lparr>bbPreds := []\<rparr>
                    \<and> list_all2 tightOK (bbPreds b) (bbPreds b'))
      (bbs[d := bbs ! d]) (bbs[d := (bbs ! d)\<lparr>bbPreds := (bbPreds (bbs ! d))[k := e']\<rparr>])"
    by (rule list_all2_update_cong) (simp_all add: list_all2_refl tightOK_refl p)
  then show ?thesis by (simp add: tightens_def putEdge_def)
qed

lemma tightens_length: "tightens bbs bbs' \<Longrightarrow> length bbs' = length bbs"
  by (simp add: tightens_def list_all2_lengthD)

lemma tightens_nth:
  assumes "tightens bbs bbs'" and "d < length bbs"
  shows "(bbs ! d)\<lparr>bbPreds := []\<rparr> = (bbs' ! d)\<lparr>bbPreds := []\<rparr>"
    and "list_all2 tightOK (bbPreds (bbs ! d)) (bbPreds (bbs' ! d))"
  using assms by (auto simp: tightens_def list_all2_conv_all_nth)

lemma tightens_static:
  assumes "tightens bbs bbs'" and "d < length bbs"
  shows "bbWeight (bbs' ! d) = bbWeight (bbs ! d)"
    and "bbFlags (bbs' ! d) = bbFlags (bbs ! d)"
    and "bbJumpKind (bbs' ! d) = bbJumpKind (bbs ! d)"
    and "bbJumpDest (bbs' ! d) = bbJumpDest (bbs ! d)"
    and "length (bbPreds (bbs' ! d)) = length (bbPreds (bbs ! d))"
proof -
  have e: "(bbs ! d)\<lparr>bbPreds := []\<rparr> = (bbs' ! d)\<lparr>bbPreds := []\<rparr>"
    using tightens_nth(1) [OF assms] .
  show "bbWeight (bbs' ! d) = bbWeight (bbs ! d)"
    using arg_cong [OF e, of bbWeight] by simp
  show "bbFlags (bbs' ! d) = bbFlags (bbs ! d)"
    using arg_cong [OF e, of bbFlags] by simp
  show "bbJumpKind (bbs' ! d) = bbJumpKind (bbs ! d)"
    using arg_cong [OF e, of bbJumpKind] by simp
  show "bbJumpDest (bbs' ! d) = bbJumpDest (bbs ! d)"
    using arg_cong [OF e, of bbJumpDest] by simp
  show "length (bbPreds (bbs' ! d)) = length (bbPreds (bbs ! d))"
    using tightens_nth(2) [OF assms] by (simp add: list_all2_lengthD)
qed

lemma allCapped_tightens:
  assumes "allCapped cc bbs" and "tightens bbs bbs'"
  shows "allCapped cc bbs'"
  unfolding allCapped_def
proof (intro allI impI ballI)
  fix d e
  assume d: "d < length bbs'" and e: "e \<in> set (bbPreds (bbs' ! d))"
  have d': "d < length bbs" using d tightens_length [OF assms(2)] by simp
  obtain k where k: "k < length (bbPreds (bbs' ! d))" "e = bbPreds (bbs' ! d) ! k"
    using e by (auto simp: in_set_conv_nth)
  have l: "list_all2 tightOK (bbPreds (bbs ! d)) (bbPreds (bbs' ! d))"
    using tightens_nth(2) [OF assms(2) d'] .
  then have t: "tightOK (bbPreds (bbs ! d) ! k) e" and k': "k < length (bbPreds (bbs ! d))"
    using k by (auto simp: list_all2_conv_all_nth)
  have c: "edgeCapped cc bbs d (bbPreds (bbs ! d) ! k)"
    using assms(1) d' k' by (simp add: allCapped_def)
  have w: "bDstWeightOf cc bbs' d = bDstWeightOf cc bbs d"
    using tightens_static(1) [OF assms(2) d'] by (auto simp: bDstWeightOf_def)
  have s: "flBlock e < length bbs" using c t by (simp add: edgeCapped_def tightOK_def)
  have ws: "bbWeight (bbs' ! flBlock e) = bbWeight (bbs ! flBlock e)"
    using tightens_static(1) [OF assms(2) s] .
  show "edgeCapped cc bbs' d e"
    using c t w ws tightens_length [OF assms(2)]
    by (auto simp: edgeCapped_def tightOK_def edgeRangeOK_def)
qed

text \<open>A checked setter that returns true without using slop took its first branch.\<close>

lemma setMin_clean:
  assumes "setEdgeWeightMinChecked w slop e = Inr (True, False, e')"
  shows "flEdgeWeightMin e \<le> w \<and> w \<le> flEdgeWeightMax e \<and> e' = e\<lparr>flEdgeWeightMin := w\<rparr>"
  using assms
  by (auto simp: setEdgeWeightMinChecked_def assertAdjusted_def split: if_splits)

lemma setMax_clean:
  assumes "setEdgeWeightMaxChecked w slop e = Inr (True, False, e')"
  shows "flEdgeWeightMin e \<le> w \<and> w \<le> flEdgeWeightMax e \<and> e' = e\<lparr>flEdgeWeightMax := w\<rparr>"
  using assms
  by (auto simp: setEdgeWeightMaxChecked_def assertAdjusted_def split: if_splits)

text \<open>So a checked assignment that leaves the state clean is an in-range update of one
  bound of the edge.\<close>

lemma applyChecked_min:
  "post (applyChecked (setEdgeWeightMinChecked w slop) d k s)
     (\<lambda>s'. ok2 s' \<longrightarrow> ok2 s
          \<and> flEdgeWeightMin (edgeAt (ewBlocks s) d k) \<le> w \<and> w \<le> flEdgeWeightMax (edgeAt (ewBlocks s) d k)
          \<and> ewBlocks s' = putEdge (ewBlocks s) d k ((edgeAt (ewBlocks s) d k)\<lparr>flEdgeWeightMin := w\<rparr>))"
proof (rule postI)
  fix s' assume a: "applyChecked (setEdgeWeightMinChecked w slop) d k s = Inr s'"
  then obtain r u e' where r: "setEdgeWeightMinChecked w slop (edgeAt (ewBlocks s) d k) = Inr (r, u, e')"
    and s': "s' = s\<lparr>ewBlocks := putEdge (ewBlocks s) d k e', assignOK := (assignOK s \<and> r),
              usedSlop := (usedSlop s \<or> u)\<rparr>"
    by (auto simp: applyChecked_def bindE_Inr_iff)
  show "ok2 s' \<longrightarrow> ok2 s
          \<and> flEdgeWeightMin (edgeAt (ewBlocks s) d k) \<le> w \<and> w \<le> flEdgeWeightMax (edgeAt (ewBlocks s) d k)
          \<and> ewBlocks s' = putEdge (ewBlocks s) d k ((edgeAt (ewBlocks s) d k)\<lparr>flEdgeWeightMin := w\<rparr>)"
  proof
    assume "ok2 s'"
    then have "r" "\<not> u" "ok2 s" using s' by (simp_all add: ok2_def)
    then show "ok2 s
          \<and> flEdgeWeightMin (edgeAt (ewBlocks s) d k) \<le> w \<and> w \<le> flEdgeWeightMax (edgeAt (ewBlocks s) d k)
          \<and> ewBlocks s' = putEdge (ewBlocks s) d k ((edgeAt (ewBlocks s) d k)\<lparr>flEdgeWeightMin := w\<rparr>)"
      using setMin_clean [of w slop "edgeAt (ewBlocks s) d k" e'] r s' by simp
  qed
qed

lemma applyChecked_max:
  "post (applyChecked (setEdgeWeightMaxChecked w slop) d k s)
     (\<lambda>s'. ok2 s' \<longrightarrow> ok2 s
          \<and> flEdgeWeightMin (edgeAt (ewBlocks s) d k) \<le> w \<and> w \<le> flEdgeWeightMax (edgeAt (ewBlocks s) d k)
          \<and> ewBlocks s' = putEdge (ewBlocks s) d k ((edgeAt (ewBlocks s) d k)\<lparr>flEdgeWeightMax := w\<rparr>))"
proof (rule postI)
  fix s' assume a: "applyChecked (setEdgeWeightMaxChecked w slop) d k s = Inr s'"
  then obtain r u e' where r: "setEdgeWeightMaxChecked w slop (edgeAt (ewBlocks s) d k) = Inr (r, u, e')"
    and s': "s' = s\<lparr>ewBlocks := putEdge (ewBlocks s) d k e', assignOK := (assignOK s \<and> r),
              usedSlop := (usedSlop s \<or> u)\<rparr>"
    by (auto simp: applyChecked_def bindE_Inr_iff)
  show "ok2 s' \<longrightarrow> ok2 s
          \<and> flEdgeWeightMin (edgeAt (ewBlocks s) d k) \<le> w \<and> w \<le> flEdgeWeightMax (edgeAt (ewBlocks s) d k)
          \<and> ewBlocks s' = putEdge (ewBlocks s) d k ((edgeAt (ewBlocks s) d k)\<lparr>flEdgeWeightMax := w\<rparr>)"
  proof
    assume "ok2 s'"
    then have "r" "\<not> u" "ok2 s" using s' by (simp_all add: ok2_def)
    then show "ok2 s
          \<and> flEdgeWeightMin (edgeAt (ewBlocks s) d k) \<le> w \<and> w \<le> flEdgeWeightMax (edgeAt (ewBlocks s) d k)
          \<and> ewBlocks s' = putEdge (ewBlocks s) d k ((edgeAt (ewBlocks s) d k)\<lparr>flEdgeWeightMax := w\<rparr>)"
      using setMax_clean [of w slop "edgeAt (ewBlocks s) d k" e'] r s' by simp
  qed
qed

lemma putEdge_id: "putEdge bbs d k (edgeAt bbs d k) = bbs"
  by (simp add: putEdge_def edgeAt_def)

lemma putEdge_twice: "putEdge (putEdge bbs d k e1) d k e2 = putEdge bbs d k e2"
  by (cases "d < length bbs") (simp_all add: putEdge_def list_update_beyond)

subsection \<open>Loops over the edges\<close>

text \<open>A loop whose steps are related by a reflexive and transitive relation, a loop over
  the in-edges of one block in which step \<open>k\<close> changes edge \<open>k\<close> only, and a loop over the
  blocks in which step \<open>d\<close> changes the in-edges of block \<open>d\<close> only.\<close>

lemma post_foldE_rel:
  assumes r: "\<And>s. R s s" and t: "\<And>a b c. R a b \<Longrightarrow> R b c \<Longrightarrow> R a c"
    and step: "\<And>x u. post (f x u) (R u)"
  shows "post (foldE f xs s) (R s)"
proof (induction xs arbitrary: s)
  case Nil
  show ?case by (simp add: r)
next
  case (Cons x xs)
  have "post (f x s) (\<lambda>u. post (foldE f xs u) (R s))"
  proof (rule post_conseq [OF step])
    fix u assume a: "R s u"
    show "post (foldE f xs u) (R s)"
      by (rule post_conseq [OF Cons.IH]) (rule t [OF a])
  qed
  then show ?case by simp
qed

lemma putEdge_preds:
  "putEdge (bbs[d := (bbs ! d)\<lparr>bbPreds := ps\<rparr>]) d n e = bbs[d := (bbs ! d)\<lparr>bbPreds := ps[n := e]\<rparr>]"
  by (cases "d < length bbs") (simp_all add: putEdge_def list_update_beyond)

lemma edges_once:
  fixes f :: "nat \<Rightarrow> EdgeWeightState \<Rightarrow> jit_error + EdgeWeightState"
  assumes step: "\<And>k u. post (f k u) (\<lambda>u'. good u' \<longrightarrow> good u
        \<and> (\<exists>e'. ewBlocks u' = putEdge (ewBlocks u) d k e'
             \<and> (Inv (ewBlocks u) \<and> d < length (ewBlocks u) \<and> k < length (bbPreds (ewBlocks u ! d))
                 \<longrightarrow> Q k (edgeAt (ewBlocks u) d k) e')))"
    and inv: "\<And>bbs ps. Inv bbs \<Longrightarrow> Inv (bbs[d := (bbs ! d)\<lparr>bbPreds := ps\<rparr>])"
  shows "post (foldE f [0..<n] s) (\<lambda>s'. good s' \<longrightarrow> good s
        \<and> (\<exists>ps. ewBlocks s' = (ewBlocks s)[d := (ewBlocks s ! d)\<lparr>bbPreds := ps\<rparr>]
             \<and> length ps = length (bbPreds (ewBlocks s ! d))
             \<and> (Inv (ewBlocks s) \<and> d < length (ewBlocks s) \<longrightarrow>
                  (\<forall>k<length ps. (k < n \<longrightarrow> Q k (bbPreds (ewBlocks s ! d) ! k) (ps ! k))
                                \<and> (n \<le> k \<longrightarrow> ps ! k = bbPreds (ewBlocks s ! d) ! k)))))"
proof (induction n)
  case 0
  have "ewBlocks s = (ewBlocks s)[d := (ewBlocks s ! d)\<lparr>bbPreds := bbPreds (ewBlocks s ! d)\<rparr>]"
    by simp
  then show ?case by (simp only: upt_0 foldE.simps post_Inr) blast
next
  case (Suc n)
  let ?bbs = "ewBlocks s"
  let ?old = "bbPreds (?bbs ! d)"
  have a: "foldE f [0..<Suc n] s = bindE (foldE f [0..<n] s) (\<lambda>u. f n u)"
    by (simp add: foldE_append bindE_def split: sum.splits)
  show ?case unfolding a post_bindE
  proof (rule post_conseq [OF Suc.IH])
    fix u
    assume ih: "good u \<longrightarrow> good s
        \<and> (\<exists>ps. ewBlocks u = ?bbs[d := (?bbs ! d)\<lparr>bbPreds := ps\<rparr>]
             \<and> length ps = length ?old
             \<and> (Inv ?bbs \<and> d < length ?bbs \<longrightarrow>
                  (\<forall>k<length ps. (k < n \<longrightarrow> Q k (?old ! k) (ps ! k))
                                \<and> (n \<le> k \<longrightarrow> ps ! k = ?old ! k))))"
    show "post (f n u) (\<lambda>s'. good s' \<longrightarrow> good s
        \<and> (\<exists>ps. ewBlocks s' = ?bbs[d := (?bbs ! d)\<lparr>bbPreds := ps\<rparr>]
             \<and> length ps = length ?old
             \<and> (Inv ?bbs \<and> d < length ?bbs \<longrightarrow>
                  (\<forall>k<length ps. (k < Suc n \<longrightarrow> Q k (?old ! k) (ps ! k))
                                \<and> (Suc n \<le> k \<longrightarrow> ps ! k = ?old ! k)))))"
    proof (rule post_conseq [OF step [of n u]], rule impI)
      fix u'
      assume st: "good u' \<longrightarrow> good u
        \<and> (\<exists>e'. ewBlocks u' = putEdge (ewBlocks u) d n e'
             \<and> (Inv (ewBlocks u) \<and> d < length (ewBlocks u) \<and> n < length (bbPreds (ewBlocks u ! d))
                 \<longrightarrow> Q n (edgeAt (ewBlocks u) d n) e'))"
        and g: "good u'"
      from st g obtain e' where gu: "good u" and pe: "ewBlocks u' = putEdge (ewBlocks u) d n e'"
        and q: "Inv (ewBlocks u) \<and> d < length (ewBlocks u) \<and> n < length (bbPreds (ewBlocks u ! d))
                 \<longrightarrow> Q n (edgeAt (ewBlocks u) d n) e'"
        by blast
      from ih gu obtain ps where gs: "good s"
        and pu: "ewBlocks u = ?bbs[d := (?bbs ! d)\<lparr>bbPreds := ps\<rparr>]"
        and len: "length ps = length ?old"
        and qs: "Inv ?bbs \<and> d < length ?bbs \<longrightarrow>
                  (\<forall>k<length ps. (k < n \<longrightarrow> Q k (?old ! k) (ps ! k))
                                \<and> (n \<le> k \<longrightarrow> ps ! k = ?old ! k))"
        by blast
      have pe': "ewBlocks u' = ?bbs[d := (?bbs ! d)\<lparr>bbPreds := ps[n := e']\<rparr>]"
        unfolding pe pu by (rule putEdge_preds)
      have qq: "(k < Suc n \<longrightarrow> Q k (?old ! k) (ps[n := e'] ! k))
                \<and> (Suc n \<le> k \<longrightarrow> ps[n := e'] ! k = ?old ! k)"
        if i: "Inv ?bbs" and d: "d < length ?bbs" and k: "k < length (ps[n := e'])" for k
      proof -
        have all: "\<forall>k<length ps. (k < n \<longrightarrow> Q k (?old ! k) (ps ! k))
                                \<and> (n \<le> k \<longrightarrow> ps ! k = ?old ! k)"
          using qs i d by blast
        have blk: "ewBlocks u ! d = (?bbs ! d)\<lparr>bbPreds := ps\<rparr>"
          unfolding pu using d by simp
        have iu: "Inv (ewBlocks u)" unfolding pu by (rule inv [OF i])
        have du: "d < length (ewBlocks u)" unfolding pu using d by simp
        show ?thesis
        proof (cases "k = n")
          case True
          have nl: "n < length ps" using k True by simp
          have "edgeAt (ewBlocks u) d n = ?old ! n"
            using all nl by (simp add: edgeAt_def blk)
          moreover have "Q n (edgeAt (ewBlocks u) d n) e'"
            using q iu du nl by (simp add: blk)
          ultimately show ?thesis using True nl by simp
        next
          case False
          then show ?thesis using all k by (simp add: nth_list_update)
        qed
      qed
      show "good s
        \<and> (\<exists>ps. ewBlocks u' = ?bbs[d := (?bbs ! d)\<lparr>bbPreds := ps\<rparr>]
             \<and> length ps = length ?old
             \<and> (Inv ?bbs \<and> d < length ?bbs \<longrightarrow>
                  (\<forall>k<length ps. (k < Suc n \<longrightarrow> Q k (?old ! k) (ps ! k))
                                \<and> (Suc n \<le> k \<longrightarrow> ps ! k = ?old ! k))))"
        using gs pe' len qq by (intro conjI exI [of _ "ps[n := e']"]) auto
    qed
  qed
qed

lemma blocks_once:
  fixes g :: "nat \<Rightarrow> EdgeWeightState \<Rightarrow> jit_error + EdgeWeightState"
  assumes step: "\<And>d u. post (g d u) (\<lambda>u'. good u' \<longrightarrow> good u
        \<and> (\<exists>ps. ewBlocks u' = (ewBlocks u)[d := (ewBlocks u ! d)\<lparr>bbPreds := ps\<rparr>]
             \<and> length ps = length (bbPreds (ewBlocks u ! d))
             \<and> (Inv (ewBlocks u) \<and> d < length (ewBlocks u) \<longrightarrow> P d (ewBlocks u ! d) ps)))"
    and inv: "\<And>bbs d ps. Inv bbs \<Longrightarrow> Inv (bbs[d := (bbs ! d)\<lparr>bbPreds := ps\<rparr>])"
  shows "post (foldE g [0..<n] s) (\<lambda>s'. good s' \<longrightarrow> good s
        \<and> length (ewBlocks s') = length (ewBlocks s)
        \<and> (Inv (ewBlocks s) \<longrightarrow> Inv (ewBlocks s'))
        \<and> (\<forall>d<length (ewBlocks s). \<exists>ps. ewBlocks s' ! d = (ewBlocks s ! d)\<lparr>bbPreds := ps\<rparr>
             \<and> length ps = length (bbPreds (ewBlocks s ! d))
             \<and> (Inv (ewBlocks s) \<and> d < n \<longrightarrow> P d (ewBlocks s ! d) ps)
             \<and> (n \<le> d \<longrightarrow> ps = bbPreds (ewBlocks s ! d))))"
proof (induction n)
  case 0
  have "\<exists>ps. ewBlocks s ! d = (ewBlocks s ! d)\<lparr>bbPreds := ps\<rparr>
             \<and> length ps = length (bbPreds (ewBlocks s ! d))
             \<and> ps = bbPreds (ewBlocks s ! d)" for d
    by simp
  then show ?case by (simp only: upt_0 foldE.simps post_Inr) simp
next
  case (Suc n)
  let ?bbs = "ewBlocks s"
  have a: "foldE g [0..<Suc n] s = bindE (foldE g [0..<n] s) (\<lambda>u. g n u)"
    by (simp add: foldE_append bindE_def split: sum.splits)
  show ?case unfolding a post_bindE
  proof (rule post_conseq [OF Suc.IH])
    fix u
    assume ih: "good u \<longrightarrow> good s
        \<and> length (ewBlocks u) = length ?bbs
        \<and> (Inv ?bbs \<longrightarrow> Inv (ewBlocks u))
        \<and> (\<forall>d<length ?bbs. \<exists>ps. ewBlocks u ! d = (?bbs ! d)\<lparr>bbPreds := ps\<rparr>
             \<and> length ps = length (bbPreds (?bbs ! d))
             \<and> (Inv ?bbs \<and> d < n \<longrightarrow> P d (?bbs ! d) ps)
             \<and> (n \<le> d \<longrightarrow> ps = bbPreds (?bbs ! d)))"
    show "post (g n u) (\<lambda>s'. good s' \<longrightarrow> good s
        \<and> length (ewBlocks s') = length ?bbs
        \<and> (Inv ?bbs \<longrightarrow> Inv (ewBlocks s'))
        \<and> (\<forall>d<length ?bbs. \<exists>ps. ewBlocks s' ! d = (?bbs ! d)\<lparr>bbPreds := ps\<rparr>
             \<and> length ps = length (bbPreds (?bbs ! d))
             \<and> (Inv ?bbs \<and> d < Suc n \<longrightarrow> P d (?bbs ! d) ps)
             \<and> (Suc n \<le> d \<longrightarrow> ps = bbPreds (?bbs ! d))))"
    proof (rule post_conseq [OF step [of n u]], rule impI)
      fix u'
      assume st: "good u' \<longrightarrow> good u
        \<and> (\<exists>ps. ewBlocks u' = (ewBlocks u)[n := (ewBlocks u ! n)\<lparr>bbPreds := ps\<rparr>]
             \<and> length ps = length (bbPreds (ewBlocks u ! n))
             \<and> (Inv (ewBlocks u) \<and> n < length (ewBlocks u) \<longrightarrow> P n (ewBlocks u ! n) ps))"
        and g: "good u'"
      from st g obtain pn where gu: "good u"
        and pe: "ewBlocks u' = (ewBlocks u)[n := (ewBlocks u ! n)\<lparr>bbPreds := pn\<rparr>]"
        and ln: "length pn = length (bbPreds (ewBlocks u ! n))"
        and q: "Inv (ewBlocks u) \<and> n < length (ewBlocks u) \<longrightarrow> P n (ewBlocks u ! n) pn"
        by blast
      from ih gu have gs: "good s" and len: "length (ewBlocks u) = length ?bbs"
        and iu: "Inv ?bbs \<longrightarrow> Inv (ewBlocks u)"
        and al: "\<forall>d<length ?bbs. \<exists>ps. ewBlocks u ! d = (?bbs ! d)\<lparr>bbPreds := ps\<rparr>
             \<and> length ps = length (bbPreds (?bbs ! d))
             \<and> (Inv ?bbs \<and> d < n \<longrightarrow> P d (?bbs ! d) ps)
             \<and> (n \<le> d \<longrightarrow> ps = bbPreds (?bbs ! d))"
        by blast+
      have l': "length (ewBlocks u') = length ?bbs" unfolding pe using len by simp
      have i': "Inv ?bbs \<longrightarrow> Inv (ewBlocks u')" unfolding pe using iu inv by blast
      have each: "\<exists>ps. ewBlocks u' ! d = (?bbs ! d)\<lparr>bbPreds := ps\<rparr>
             \<and> length ps = length (bbPreds (?bbs ! d))
             \<and> (Inv ?bbs \<and> d < Suc n \<longrightarrow> P d (?bbs ! d) ps)
             \<and> (Suc n \<le> d \<longrightarrow> ps = bbPreds (?bbs ! d))" if d: "d < length ?bbs" for d
      proof -
        from al d obtain ps where b: "ewBlocks u ! d = (?bbs ! d)\<lparr>bbPreds := ps\<rparr>"
          and lp: "length ps = length (bbPreds (?bbs ! d))"
          and pp: "Inv ?bbs \<and> d < n \<longrightarrow> P d (?bbs ! d) ps"
          and un: "n \<le> d \<longrightarrow> ps = bbPreds (?bbs ! d)"
          by blast
        show ?thesis
        proof (cases "d = n")
          case True
          have same: "ewBlocks u ! n = ?bbs ! n" using b un True by simp
          have "ewBlocks u' ! n = (?bbs ! n)\<lparr>bbPreds := pn\<rparr>"
            unfolding pe using d True len same by simp
          moreover have "length pn = length (bbPreds (?bbs ! n))" using ln same by simp
          moreover have "Inv ?bbs \<longrightarrow> P n (?bbs ! n) pn"
            using q iu d True len same by simp
          ultimately show ?thesis using True by (intro exI [of _ pn]) simp
        next
          case False
          then have "ewBlocks u' ! d = ewBlocks u ! d" unfolding pe by simp
          then show ?thesis using b lp pp un False by (intro exI [of _ ps]) auto
        qed
      qed
      show "good s
        \<and> length (ewBlocks u') = length ?bbs
        \<and> (Inv ?bbs \<longrightarrow> Inv (ewBlocks u'))
        \<and> (\<forall>d<length ?bbs. \<exists>ps. ewBlocks u' ! d = (?bbs ! d)\<lparr>bbPreds := ps\<rparr>
             \<and> length ps = length (bbPreds (?bbs ! d))
             \<and> (Inv ?bbs \<and> d < Suc n \<longrightarrow> P d (?bbs ! d) ps)
             \<and> (Suc n \<le> d \<longrightarrow> ps = bbPreds (?bbs ! d)))"
        using gs l' i' each by blast
    qed
  qed
qed

subsection \<open>The passes\<close>

text \<open>Every step of a pass that leaves the state clean narrows ranges: a checked setter
  stores its argument only after comparing it with both bounds, whatever arithmetic
  produced the argument.\<close>

lemma applyChecked_min_tightens:
  "post (applyChecked (setEdgeWeightMinChecked w slop) d k s)
     (\<lambda>s'. ok2 s' \<longrightarrow> ok2 s \<and> tightens (ewBlocks s) (ewBlocks s'))"
proof (rule post_conseq [OF applyChecked_min], rule impI)
  fix s'
  let ?e = "edgeAt (ewBlocks s) d k"
  assume h: "ok2 s' \<longrightarrow> ok2 s \<and> flEdgeWeightMin ?e \<le> w \<and> w \<le> flEdgeWeightMax ?e
          \<and> ewBlocks s' = putEdge (ewBlocks s) d k (?e\<lparr>flEdgeWeightMin := w\<rparr>)"
    and o: "ok2 s'"
  have "tightOK ?e (?e\<lparr>flEdgeWeightMin := w\<rparr>)" using h o by (simp add: tightOK_def)
  then show "ok2 s \<and> tightens (ewBlocks s) (ewBlocks s')"
    using h o tightens_putEdge [of "ewBlocks s" d k "?e\<lparr>flEdgeWeightMin := w\<rparr>"] by simp
qed

lemma applyChecked_max_tightens:
  "post (applyChecked (setEdgeWeightMaxChecked w slop) d k s)
     (\<lambda>s'. ok2 s' \<longrightarrow> ok2 s \<and> tightens (ewBlocks s) (ewBlocks s'))"
proof (rule post_conseq [OF applyChecked_max], rule impI)
  fix s'
  let ?e = "edgeAt (ewBlocks s) d k"
  assume h: "ok2 s' \<longrightarrow> ok2 s \<and> flEdgeWeightMin ?e \<le> w \<and> w \<le> flEdgeWeightMax ?e
          \<and> ewBlocks s' = putEdge (ewBlocks s) d k (?e\<lparr>flEdgeWeightMax := w\<rparr>)"
    and o: "ok2 s'"
  have "tightOK ?e (?e\<lparr>flEdgeWeightMax := w\<rparr>)" using h o by (simp add: tightOK_def)
  then show "ok2 s \<and> tightens (ewBlocks s) (ewBlocks s')"
    using h o tightens_putEdge [of "ewBlocks s" d k "?e\<lparr>flEdgeWeightMax := w\<rparr>"] by simp
qed

lemma adjustPair_step:
  "post (adjustPair W slop d1 k1 d2 k2 s)
     (\<lambda>s'. ok2 s' \<longrightarrow> ok2 s \<and> tightens (ewBlocks s) (ewBlocks s'))"
  unfolding adjustPair_def Let_def
  by (auto intro: applyChecked_min_tightens applyChecked_max_tightens simp: tightens_refl)

lemma reconcileEdge_step:
  "post (reconcileEdge G d k s)
     (\<lambda>s'. clean s' \<longrightarrow> clean s \<and> tightens (ewBlocks s) (ewBlocks s'))"
proof (rule postI, rule impI)
  fix s' assume run: "reconcileEdge G d k s = Inr s'" and cl: "clean s'"
  have ninc: "\<not> inconsistentProfileData s"
  proof
    assume i: "inconsistentProfileData s"
    then have "reconcileEdge G d k s = Inr s" by (simp add: reconcileEdge_def)
    with run cl i show False by (simp add: clean_def)
  qed
  from run ninc obtain bSrc where
    r: "(if bbJumpKind bSrc = BBJ_COND then
          bindE (otherEdgeOf (ewBlocks s) (flBlock (edgeAt (ewBlocks s) d k)) d) (\<lambda>other.
          if \<not> flEdgeWeightMin (edgeAt (ewBlocks s) d k) \<le> flEdgeWeightMax (edgeAt (ewBlocks s) d k)
          then Inl NowayAssert
          else if \<not> flEdgeWeightMin (edgeAt (ewBlocks s) (fst other) (snd other))
                    \<le> flEdgeWeightMax (edgeAt (ewBlocks s) (fst other) (snd other))
          then Inl NowayAssert
          else
          bindE (adjustPair (bbWeight bSrc) (fadd (G bSrc (ewBlocks s ! d)) 1)
                   d k (fst other) (snd other) (s\<lparr>assignOK := True\<rparr>)) (\<lambda>s1.
          bindE (adjustPair (bbWeight bSrc) (fadd (G bSrc (ewBlocks s ! d)) 1)
                   (fst other) (snd other) d k s1) (\<lambda>s2.
          checkPair (bbWeight bSrc) (fadd (G bSrc (ewBlocks s ! d)) 1)
            d k (fst other) (snd other) s2)))
        else Inr (s\<lparr>assignOK := True\<rparr>)) = Inr s'"
    unfolding reconcileEdge_def by (auto simp: bindE_Inr_iff)
  show "clean s \<and> tightens (ewBlocks s) (ewBlocks s')"
  proof (cases "bbJumpKind bSrc = BBJ_COND")
    case False
    then have "s' = s\<lparr>assignOK := True\<rparr>" using r by simp
    then show ?thesis using cl by (simp add: clean_def tightens_refl)
  next
    case True
    from r True obtain other s1 s2 where
      a1: "adjustPair (bbWeight bSrc) (fadd (G bSrc (ewBlocks s ! d)) 1)
                   d k (fst other) (snd other) (s\<lparr>assignOK := True\<rparr>) = Inr s1"
      and a2: "adjustPair (bbWeight bSrc) (fadd (G bSrc (ewBlocks s ! d)) 1)
                   (fst other) (snd other) d k s1 = Inr s2"
      and ck: "checkPair (bbWeight bSrc) (fadd (G bSrc (ewBlocks s ! d)) 1)
            d k (fst other) (snd other) s2 = Inr s'"
      by (auto simp: bindE_Inr_iff split: if_splits)
    have o2: "ok2 s2" and b2: "ewBlocks s' = ewBlocks s2"
      using ck cl by (auto simp: checkPair_def clean_def ok2_def split: if_splits)
    from postD [OF adjustPair_step a2] o2 have o1: "ok2 s1"
      and t2: "tightens (ewBlocks s1) (ewBlocks s2)" by simp_all
    from postD [OF adjustPair_step a1] o1 have o0: "ok2 (s\<lparr>assignOK := True\<rparr>)"
      and t1: "tightens (ewBlocks s) (ewBlocks s1)" by simp_all
    have "clean s" using o0 by (simp add: ok2_def clean_def)
    then show ?thesis using tightens_trans [OF t1 t2] b2 by simp
  qed
qed

lemma clean_tightens_fold:
  assumes "\<And>x u. post (f x u) (\<lambda>u'. clean u' \<longrightarrow> clean u \<and> tightens (ewBlocks u) (ewBlocks u'))"
  shows "post (foldE f xs s) (\<lambda>s'. clean s' \<longrightarrow> clean s \<and> tightens (ewBlocks s) (ewBlocks s'))"
proof (rule post_foldE_rel [where R = "\<lambda>u u'. clean u' \<longrightarrow> clean u \<and> tightens (ewBlocks u) (ewBlocks u')"])
  show "clean u \<longrightarrow> clean u \<and> tightens (ewBlocks u) (ewBlocks u)" for u
    by (simp add: tightens_refl)
  show "clean c \<longrightarrow> clean a \<and> tightens (ewBlocks a) (ewBlocks c)"
    if "clean b \<longrightarrow> clean a \<and> tightens (ewBlocks a) (ewBlocks b)"
      "clean c \<longrightarrow> clean b \<and> tightens (ewBlocks b) (ewBlocks c)" for a b c
    using that tightens_trans by blast
  show "post (f x u) (\<lambda>u'. clean u' \<longrightarrow> clean u \<and> tightens (ewBlocks u) (ewBlocks u'))" for x u
    by (rule assms)
qed

lemma reconcileAll_step:
  "post (allEdges (reconcileEdge G) s)
     (\<lambda>s'. clean s' \<longrightarrow> clean s \<and> tightens (ewBlocks s) (ewBlocks s'))"
  unfolding allEdges_def
proof (rule clean_tightens_fold)
  fix d u
  show "post (edgesOfBlock (reconcileEdge G) d u)
     (\<lambda>u'. clean u' \<longrightarrow> clean u \<and> tightens (ewBlocks u) (ewBlocks u'))"
    unfolding edgesOfBlock_def by (rule clean_tightens_fold) (rule reconcileEdge_step)
qed

lemma balanceMin_step:
  "post (balanceMin W otherMax slop d k s)
     (\<lambda>s'. ok2 s' \<longrightarrow> ok2 s \<and> tightens (ewBlocks s) (ewBlocks s'))"
  unfolding balanceMin_def Let_def
  by (auto intro: applyChecked_min_tightens simp: tightens_refl)

lemma balanceMax_step:
  "post (balanceMax W otherMin slop d k s)
     (\<lambda>s'. ok2 s' \<longrightarrow> ok2 s \<and> tightens (ewBlocks s) (ewBlocks s'))"
  unfolding balanceMax_def Let_def
  by (auto intro: applyChecked_max_tightens simp: tightens_refl)

lemma balanceEdge_step:
  "post (balanceEdge G W A B d k s)
     (\<lambda>s'. clean s' \<longrightarrow> clean s \<and> tightens (ewBlocks s) (ewBlocks s'))"
proof (rule postI, rule impI)
  fix s' assume run: "balanceEdge G W A B d k s = Inr s'" and cl: "clean s'"
  let ?e = "edgeAt (ewBlocks s) d k"
  have ninc: "\<not> inconsistentProfileData s"
  proof
    assume i: "inconsistentProfileData s"
    then have "balanceEdge G W A B d k s = Inr s" by (simp add: balanceEdge_def)
    with run cl i show False by (simp add: clean_def)
  qed
  from run ninc obtain bSrc s1 s2 where
    m1: "balanceMin W (fsub B (flEdgeWeightMax ?e)) (fadd (G bSrc (ewBlocks s ! d)) 1) d k
           (s\<lparr>assignOK := True\<rparr>) = Inr s1"
    and m2: "balanceMax W (fsub A (flEdgeWeightMin ?e)) (fadd (G bSrc (ewBlocks s ! d)) 1) d k s1
           = Inr s2"
    and fin: "s' = countGoodEdge d k s2"
    unfolding balanceEdge_def by (auto simp: bindE_Inr_iff split: if_splits)
  have o2: "ok2 s2" and b2: "ewBlocks s' = ewBlocks s2"
    using cl fin by (auto simp: countGoodEdge_def clean_def ok2_def split: if_splits)
  from postD [OF balanceMax_step m2] o2 have o1: "ok2 s1"
    and t2: "tightens (ewBlocks s1) (ewBlocks s2)" by simp_all
  from postD [OF balanceMin_step m1] o1 have o0: "ok2 (s\<lparr>assignOK := True\<rparr>)"
    and t1: "tightens (ewBlocks s) (ewBlocks s1)" by simp_all
  have "clean s" using o0 by (simp add: ok2_def clean_def)
  then show "clean s \<and> tightens (ewBlocks s) (ewBlocks s')"
    using tightens_trans [OF t1 t2] b2 by simp
qed

lemma balanceBlock_step:
  "post (balanceBlock G cc d s)
     (\<lambda>s'. clean s' \<longrightarrow> clean s \<and> tightens (ewBlocks s) (ewBlocks s'))"
proof (cases "inconsistentProfileData s \<or> bbWeight (ewBlocks s ! d) = BB_MAX_WEIGHT")
  case True
  then show ?thesis by (auto simp: balanceBlock_def clean_def)
next
  case False
  then have e: "balanceBlock G cc d s =
      foldE (balanceEdge G (bDstWeightOf cc (ewBlocks s) d)
               (sumWeights (map flEdgeWeightMin (bbPreds (ewBlocks s ! d))))
               (sumWeights (map flEdgeWeightMax (bbPreds (ewBlocks s ! d)))) d)
        [0..<length (bbPreds (ewBlocks s ! d))] s"
    by (simp add: balanceBlock_def)
  show ?thesis unfolding e by (rule clean_tightens_fold) (rule balanceEdge_step)
qed

lemma balanceAll_step:
  "post (balanceAll G cc s)
     (\<lambda>s'. clean s' \<longrightarrow> clean s \<and> tightens (ewBlocks s) (ewBlocks s'))"
  unfolding balanceAll_def by (rule clean_tightens_fold) (rule balanceBlock_step)

lemma edgeWeightPasses_step:
  "post (edgeWeightPasses G cc iterations s)
     (\<lambda>s'. clean s' \<longrightarrow> clean s \<and> tightens (ewBlocks s) (ewBlocks s'))"
proof (induction G cc iterations s rule: edgeWeightPasses.induct)
  case (1 G cc iterations s)
  let ?s0 = "s\<lparr>goodEdgeCountPrevious := goodEdgeCountCurrent s, goodEdgeCountCurrent := 0,
                 hasIncompleteEdgeWeights := False\<rparr>"
  show ?case
  proof (rule postI, rule impI)
    fix s' assume run: "edgeWeightPasses G cc iterations s = Inr s'" and cl: "clean s'"
    from run obtain s1 s2 where
      r1: "allEdges (reconcileEdge G) ?s0 = Inr s1"
      and r2: "balanceAll G cc s1 = Inr s2"
      and r3: "(if inconsistentProfileData s2 then Inr s2
       else if numEdges s2 = goodEdgeCountCurrent s2 then
         (if hasIncompleteEdgeWeights s2 then Inl NowayAssert else Inr s2)
       else if hasIncompleteEdgeWeights s2 \<and> goodEdgeCountCurrent s2 > goodEdgeCountPrevious s2
               \<and> Suc iterations < 8
       then edgeWeightPasses G cc (Suc iterations) s2
       else Inr s2) = Inr s'"
      by (subst (asm) edgeWeightPasses.simps) (auto simp: bindE_Inr_iff)
    have main: "clean s2 \<and> tightens (ewBlocks s2) (ewBlocks s')"
    proof (cases "\<not> inconsistentProfileData s2 \<and> numEdges s2 \<noteq> goodEdgeCountCurrent s2
        \<and> hasIncompleteEdgeWeights s2 \<and> goodEdgeCountCurrent s2 > goodEdgeCountPrevious s2
               \<and> Suc iterations < 8")
      case True
      then have e: "edgeWeightPasses G cc (Suc iterations) s2 = Inr s'" using r3 by simp
      have "post (edgeWeightPasses G cc (Suc iterations) s2)
         (\<lambda>s'. clean s' \<longrightarrow> clean s2 \<and> tightens (ewBlocks s2) (ewBlocks s'))"
        using "1.IH" [of s2] True by simp
      from postD [OF this e] cl show ?thesis by simp
    next
      case False
      then have "s' = s2" using r3 by (auto split: if_splits)
      then show ?thesis using cl by (simp add: tightens_refl)
    qed
    from postD [OF balanceAll_step r2] main have c1: "clean s1"
      and t1: "tightens (ewBlocks s1) (ewBlocks s2)" by simp_all
    from postD [OF reconcileAll_step r1] c1 have c0: "clean ?s0"
      and t0: "tightens (ewBlocks s) (ewBlocks s1)" by simp_all
    have c: "clean s" using c0 by (simp add: clean_def)
    have t: "tightens (ewBlocks s) (ewBlocks s')"
      using tightens_trans [OF t0 tightens_trans [OF t1]] main by blast
    show "clean s \<and> tightens (ewBlocks s) (ewBlocks s')" using c t by blast
  qed
qed

subsection \<open>The initial assignment\<close>

lemma resetUnprofiled_step:
  "post (resetUnprofiled bSrc d k s)
     (\<lambda>s'. ok2 s' = ok2 s
        \<and> (\<exists>e'. ewBlocks s' = putEdge (ewBlocks s) d k e'
             \<and> flBlock e' = flBlock (edgeAt (ewBlocks s) d k)
             \<and> (edgeRangeOK (edgeAt (ewBlocks s) d k) \<longrightarrow> edgeRangeOK e')))"
proof (cases "\<not> hasProfileWeight bSrc \<or> \<not> hasProfileWeight (ewBlocks s ! d)")
  case True
  let ?e' = "(edgeAt (ewBlocks s) d k)\<lparr>flEdgeWeightMin := BB_ZERO_WEIGHT, flEdgeWeightMax := BB_MAX_WEIGHT\<rparr>"
  have "resetUnprofiled bSrc d k s = Inr (s\<lparr>ewBlocks := putEdge (ewBlocks s) d k ?e'\<rparr>)"
    using True by (simp add: resetUnprofiled_def setEdgeWeights_def BB_ZERO_WEIGHT_def BB_MAX_WEIGHT_def)
  moreover have "edgeRangeOK ?e'"
    by (simp add: edgeRangeOK_def BB_ZERO_WEIGHT_def BB_MAX_WEIGHT_def)
  ultimately show ?thesis
    by (simp only: post_Inr) (intro conjI exI [of _ ?e'], simp_all add: ok2_def)
next
  case False
  then have "resetUnprofiled bSrc d k s = Inr s" by (simp add: resetUnprofiled_def)
  then show ?thesis using putEdge_id [of "ewBlocks s" d k]
    by (simp only: post_Inr) (intro conjI exI [of _ "edgeAt (ewBlocks s) d k"], simp_all)
qed

text \<open>The two shapes of an initial assignment: both bounds set to the same weight, and
  the upper bound lowered to a weight.\<close>

lemma exact_step:
  "post (bindE (applyChecked (setEdgeWeightMinChecked w slop) d k s)
           (applyChecked (setEdgeWeightMaxChecked w slop) d k))
     (\<lambda>s'. ok2 s' \<longrightarrow> ok2 s
        \<and> (\<exists>e'. ewBlocks s' = putEdge (ewBlocks s) d k e'
             \<and> (d < length (ewBlocks s) \<and> k < length (bbPreds (ewBlocks s ! d))
                 \<longrightarrow> tightOK (edgeAt (ewBlocks s) d k) e' \<and> flEdgeWeightMax e' \<le> w)))"
proof (rule postI, rule impI)
  fix s'
  let ?e = "edgeAt (ewBlocks s) d k"
  assume run: "bindE (applyChecked (setEdgeWeightMinChecked w slop) d k s)
           (applyChecked (setEdgeWeightMaxChecked w slop) d k) = Inr s'" and o: "ok2 s'"
  then obtain s1 where r1: "applyChecked (setEdgeWeightMinChecked w slop) d k s = Inr s1"
    and r2: "applyChecked (setEdgeWeightMaxChecked w slop) d k s1 = Inr s'"
    by (auto simp: bindE_Inr_iff)
  let ?e1 = "edgeAt (ewBlocks s1) d k"
  from postD [OF applyChecked_max r2] o have o1: "ok2 s1"
    and i2: "flEdgeWeightMin ?e1 \<le> w" "w \<le> flEdgeWeightMax ?e1"
    and p2: "ewBlocks s' = putEdge (ewBlocks s1) d k (?e1\<lparr>flEdgeWeightMax := w\<rparr>)"
    by simp_all
  from postD [OF applyChecked_min r1] o1 have o0: "ok2 s"
    and i1: "flEdgeWeightMin ?e \<le> w" "w \<le> flEdgeWeightMax ?e"
    and p1: "ewBlocks s1 = putEdge (ewBlocks s) d k (?e\<lparr>flEdgeWeightMin := w\<rparr>)"
    by simp_all
  have p: "ewBlocks s' = putEdge (ewBlocks s) d k (?e1\<lparr>flEdgeWeightMax := w\<rparr>)"
    unfolding p2 unfolding p1 putEdge_twice ..
  have q: "tightOK ?e (?e1\<lparr>flEdgeWeightMax := w\<rparr>) \<and> flEdgeWeightMax (?e1\<lparr>flEdgeWeightMax := w\<rparr>) \<le> w"
    if "d < length (ewBlocks s)" "k < length (bbPreds (ewBlocks s ! d))"
  proof -
    have "?e1 = ?e\<lparr>flEdgeWeightMin := w\<rparr>"
      unfolding p1 by (rule edgeAt_putEdge_same [OF that])
    then show ?thesis using i1 by (simp add: tightOK_def)
  qed
  show "ok2 s \<and> (\<exists>e'. ewBlocks s' = putEdge (ewBlocks s) d k e'
             \<and> (d < length (ewBlocks s) \<and> k < length (bbPreds (ewBlocks s ! d))
                 \<longrightarrow> tightOK ?e e' \<and> flEdgeWeightMax e' \<le> w))"
    using o0 p q by blast
qed

lemma upper_step:
  "post (if flEdgeWeightMax (edgeAt (ewBlocks s) d k) > w
         then applyChecked (setEdgeWeightMaxChecked w slop) d k s else Inr s)
     (\<lambda>s'. ok2 s' \<longrightarrow> ok2 s
        \<and> (\<exists>e'. ewBlocks s' = putEdge (ewBlocks s) d k e'
             \<and> (d < length (ewBlocks s) \<and> k < length (bbPreds (ewBlocks s ! d))
                 \<longrightarrow> tightOK (edgeAt (ewBlocks s) d k) e' \<and> flEdgeWeightMax e' \<le> w)))"
proof (cases "flEdgeWeightMax (edgeAt (ewBlocks s) d k) > w")
  case True
  let ?e = "edgeAt (ewBlocks s) d k"
  have "post (applyChecked (setEdgeWeightMaxChecked w slop) d k s)
     (\<lambda>s'. ok2 s' \<longrightarrow> ok2 s
        \<and> (\<exists>e'. ewBlocks s' = putEdge (ewBlocks s) d k e'
             \<and> (d < length (ewBlocks s) \<and> k < length (bbPreds (ewBlocks s ! d))
                 \<longrightarrow> tightOK ?e e' \<and> flEdgeWeightMax e' \<le> w)))"
  proof (rule post_conseq [OF applyChecked_max], rule impI)
    fix s'
    assume h: "ok2 s' \<longrightarrow> ok2 s \<and> flEdgeWeightMin ?e \<le> w \<and> w \<le> flEdgeWeightMax ?e
          \<and> ewBlocks s' = putEdge (ewBlocks s) d k (?e\<lparr>flEdgeWeightMax := w\<rparr>)"
      and o: "ok2 s'"
    have "tightOK ?e (?e\<lparr>flEdgeWeightMax := w\<rparr>)" using h o by (simp add: tightOK_def)
    then show "ok2 s \<and> (\<exists>e'. ewBlocks s' = putEdge (ewBlocks s) d k e'
             \<and> (d < length (ewBlocks s) \<and> k < length (bbPreds (ewBlocks s ! d))
                 \<longrightarrow> tightOK ?e e' \<and> flEdgeWeightMax e' \<le> w))"
      using h o by (intro conjI exI [of _ "?e\<lparr>flEdgeWeightMax := w\<rparr>"]) simp_all
  qed
  then show ?thesis using True by simp
next
  case False
  then show ?thesis using putEdge_id [of "ewBlocks s" d k]
    by (simp only: if_False post_Inr)
       (intro impI conjI exI [of _ "edgeAt (ewBlocks s) d k"], simp_all add: tightOK_refl)
qed

lemma initFromSource_step:
  "post (initFromSource bSrc slop d k s)
     (\<lambda>s'. ok2 s' \<longrightarrow> ok2 s
        \<and> (\<exists>e'. ewBlocks s' = putEdge (ewBlocks s) d k e'
             \<and> (d < length (ewBlocks s) \<and> k < length (bbPreds (ewBlocks s ! d))
                 \<longrightarrow> tightOK (edgeAt (ewBlocks s) d k) e' \<and> flEdgeWeightMax e' \<le> bbWeight bSrc)))"
  unfolding initFromSource_def
  by (cases "bbJumpKind bSrc") (simp_all only: BBjumpKinds.case exact_step upper_step post_Inl)

lemma capByDest_step:
  "post (capByDest W slop d k s)
     (\<lambda>s'. ok2 s' \<longrightarrow> ok2 s
        \<and> (\<exists>e'. ewBlocks s' = putEdge (ewBlocks s) d k e'
             \<and> (d < length (ewBlocks s) \<and> k < length (bbPreds (ewBlocks s ! d))
                 \<longrightarrow> tightOK (edgeAt (ewBlocks s) d k) e' \<and> flEdgeWeightMax e' \<le> W)))"
  unfolding capByDest_def by (rule upper_step)

lemma initEdgeWeight_step:
  "post (initEdgeWeight G cc d k s)
     (\<lambda>s'. clean s' \<longrightarrow> clean s
        \<and> (\<exists>e'. ewBlocks s' = putEdge (ewBlocks s) d k e'
             \<and> (d < length (ewBlocks s) \<and> k < length (bbPreds (ewBlocks s ! d))
                 \<longrightarrow> flBlock e' = flBlock (edgeAt (ewBlocks s) d k)
                   \<and> (edgeRangeOK (edgeAt (ewBlocks s) d k) \<longrightarrow> edgeCapped cc (ewBlocks s) d e'))))"
proof (rule postI, rule impI)
  fix s' assume run: "initEdgeWeight G cc d k s = Inr s'" and cl: "clean s'"
  let ?bbs = "ewBlocks s"
  let ?e = "edgeAt ?bbs d k"
  let ?s0 = "s\<lparr>assignOK := True, numEdges := Suc (numEdges s)\<rparr>"
  have ninc: "\<not> inconsistentProfileData s"
  proof
    assume i: "inconsistentProfileData s"
    then have "initEdgeWeight G cc d k s = Inr s" by (simp add: initEdgeWeight_def)
    with run cl i show False by (simp add: clean_def)
  qed
  from run ninc obtain bSrc s1 s2 s3 where
    b: "blockAt ?bbs (flBlock ?e) = Inr bSrc"
    and r1: "resetUnprofiled bSrc d k ?s0 = Inr s1"
    and r2: "initFromSource bSrc (fadd (G bSrc (?bbs ! d)) 1) d k s1 = Inr s2"
    and r3: "capByDest (bDstWeightOf cc ?bbs d) (fadd (G bSrc (?bbs ! d)) 1) d k s2 = Inr s3"
    and fin: "s' = leaveIfNotOK s3"
    unfolding initEdgeWeight_def by (auto simp: bindE_Inr_iff)
  have src: "flBlock ?e < length ?bbs" "bSrc = ?bbs ! flBlock ?e"
    using b by (auto simp: blockAt_def split: if_splits)
  have o3: "ok2 s3" and b3: "ewBlocks s' = ewBlocks s3"
    using cl fin by (auto simp: leaveIfNotOK_def clean_def ok2_def split: if_splits)
  from postD [OF capByDest_step r3] o3 obtain e3 where o2: "ok2 s2"
    and p3: "ewBlocks s3 = putEdge (ewBlocks s2) d k e3"
    and q3: "d < length (ewBlocks s2) \<and> k < length (bbPreds (ewBlocks s2 ! d))
                 \<longrightarrow> tightOK (edgeAt (ewBlocks s2) d k) e3 \<and> flEdgeWeightMax e3 \<le> bDstWeightOf cc ?bbs d"
    by blast
  from postD [OF initFromSource_step r2] o2 obtain e2 where o1: "ok2 s1"
    and p2: "ewBlocks s2 = putEdge (ewBlocks s1) d k e2"
    and q2: "d < length (ewBlocks s1) \<and> k < length (bbPreds (ewBlocks s1 ! d))
                 \<longrightarrow> tightOK (edgeAt (ewBlocks s1) d k) e2 \<and> flEdgeWeightMax e2 \<le> bbWeight bSrc"
    by blast
  have f1: "ok2 s1 = ok2 ?s0 \<and> (\<exists>e1. ewBlocks s1 = putEdge ?bbs d k e1
             \<and> flBlock e1 = flBlock ?e \<and> (edgeRangeOK ?e \<longrightarrow> edgeRangeOK e1))"
    using postD [OF resetUnprofiled_step r1] by simp
  then obtain e1 where o0: "ok2 ?s0" and p1: "ewBlocks s1 = putEdge ?bbs d k e1"
    and q1: "flBlock e1 = flBlock ?e" "edgeRangeOK ?e \<longrightarrow> edgeRangeOK e1"
    using o1 by blast
  have c: "clean s" using o0 by (simp add: ok2_def clean_def)
  have p: "ewBlocks s' = putEdge ?bbs d k e3"
    by (simp only: b3 p3 p2 p1 putEdge_twice)
  have q: "flBlock e3 = flBlock ?e \<and> (edgeRangeOK ?e \<longrightarrow> edgeCapped cc ?bbs d e3)"
    if d: "d < length ?bbs" and k: "k < length (bbPreds (?bbs ! d))"
  proof -
    have d1: "d < length (ewBlocks s1)" "k < length (bbPreds (ewBlocks s1 ! d))"
      unfolding p1 using d k by (simp_all add: putEdge_static)
    have e1: "edgeAt (ewBlocks s1) d k = e1"
      unfolding p1 by (rule edgeAt_putEdge_same [OF d k])
    have d2: "d < length (ewBlocks s2)" "k < length (bbPreds (ewBlocks s2 ! d))"
      unfolding p2 using d1 by (simp_all add: putEdge_static)
    have e2: "edgeAt (ewBlocks s2) d k = e2"
      unfolding p2 by (rule edgeAt_putEdge_same [OF d1])
    have t2: "tightOK e1 e2" "flEdgeWeightMax e2 \<le> bbWeight bSrc"
      using q2 d1 e1 by simp_all
    have t3: "tightOK e2 e3" "flEdgeWeightMax e3 \<le> bDstWeightOf cc ?bbs d"
      using q3 d2 e2 by simp_all
    have fl: "flBlock e3 = flBlock ?e"
      using t2(1) t3(1) q1(1) by (simp add: tightOK_def)
    have "edgeCapped cc ?bbs d e3" if r: "edgeRangeOK ?e"
    proof -
      have "edgeRangeOK e1" using q1(2) r by simp
      then have "edgeRangeOK e3" using t2(1) t3(1) by (auto simp: edgeRangeOK_def tightOK_def)
      moreover have "flEdgeWeightMax e3 \<le> bbWeight (?bbs ! flBlock e3)"
        using t2 t3(1) src(2) fl by (simp add: tightOK_def)
      ultimately show ?thesis using t3(2) src(1) fl by (simp add: edgeCapped_def)
    qed
    then show ?thesis using fl by simp
  qed
  show "clean s \<and> (\<exists>e'. ewBlocks s' = putEdge ?bbs d k e'
             \<and> (d < length ?bbs \<and> k < length (bbPreds (?bbs ! d))
                 \<longrightarrow> flBlock e' = flBlock ?e \<and> (edgeRangeOK ?e \<longrightarrow> edgeCapped cc ?bbs d e')))"
    using c p q by blast
qed

lemma sameWeights_refl: "sameWeights bbs bbs"
  by (simp add: sameWeights_def)

lemma sameWeights_nth:
  assumes "sameWeights bbs bbs'" and "i < length bbs"
  shows "bbWeight (bbs' ! i) = bbWeight (bbs ! i)"
proof -
  have l: "length bbs' = length bbs" and m: "map bbWeight bbs' = map bbWeight bbs"
    using assms(1) by (simp_all add: sameWeights_def)
  have "bbWeight (bbs' ! i) = map bbWeight bbs' ! i" using assms(2) l by simp
  also have "\<dots> = map bbWeight bbs ! i" by (simp only: m)
  also have "\<dots> = bbWeight (bbs ! i)" using assms(2) by simp
  finally show ?thesis .
qed

lemma sameWeights_preds:
  assumes "sameWeights bbs0 bbs"
  shows "sameWeights bbs0 (bbs[d := (bbs ! d)\<lparr>bbPreds := ps\<rparr>])"
proof -
  have "map bbWeight (bbs[d := (bbs ! d)\<lparr>bbPreds := ps\<rparr>]) = map bbWeight bbs"
    by (cases "d < length bbs") (simp_all add: map_update list_update_same_conv list_update_beyond)
  then show ?thesis using assms by (simp add: sameWeights_def)
qed

lemma edgeCapped_same:
  assumes "sameWeights bbs0 bbs" and "d < length bbs"
  shows "edgeCapped cc bbs d e = edgeCapped cc bbs0 d e"
proof -
  have l: "length bbs = length bbs0" using assms(1) by (simp add: sameWeights_def)
  have w: "bbWeight (bbs ! i) = bbWeight (bbs0 ! i)" if "i < length bbs" for i
    using sameWeights_nth [OF assms(1)] that l by simp
  have "bDstWeightOf cc bbs d = bDstWeightOf cc bbs0 d"
    using w [OF assms(2)] by (auto simp: bDstWeightOf_def)
  then show ?thesis using l w by (auto simp: edgeCapped_def)
qed

lemma initBlock_step:
  "post (edgesOfBlock (initEdgeWeight G cc) d s) (\<lambda>s'. clean s' \<longrightarrow> clean s
        \<and> (\<exists>ps. ewBlocks s' = (ewBlocks s)[d := (ewBlocks s ! d)\<lparr>bbPreds := ps\<rparr>]
             \<and> length ps = length (bbPreds (ewBlocks s ! d))
             \<and> (sameWeights bbs0 (ewBlocks s) \<and> d < length (ewBlocks s)
                 \<longrightarrow> list_all2 (initCapped cc bbs0 d) (bbPreds (ewBlocks s ! d)) ps)))"
proof -
  let ?bbs = "ewBlocks s"
  let ?old = "bbPreds (?bbs ! d)"
  have step: "post (initEdgeWeight G cc d k u) (\<lambda>u'. clean u' \<longrightarrow> clean u
        \<and> (\<exists>e'. ewBlocks u' = putEdge (ewBlocks u) d k e'
             \<and> (sameWeights bbs0 (ewBlocks u) \<and> d < length (ewBlocks u) \<and> k < length (bbPreds (ewBlocks u ! d))
                 \<longrightarrow> initCapped cc bbs0 d (edgeAt (ewBlocks u) d k) e')))" for k u
    by (rule post_conseq [OF initEdgeWeight_step])
       (use edgeCapped_same [of bbs0 "ewBlocks u" d cc] in \<open>auto simp: initCapped_def\<close>)
  show ?thesis unfolding edgesOfBlock_def
  proof (rule post_conseq [OF edges_once [where good = clean and Inv = "sameWeights bbs0"
          and Q = "\<lambda>k. initCapped cc bbs0 d" and f = "initEdgeWeight G cc d" and d = d,
          OF step sameWeights_preds]], assumption, rule impI)
    fix s'
    assume h: "clean s' \<longrightarrow> clean s
        \<and> (\<exists>ps. ewBlocks s' = ?bbs[d := (?bbs ! d)\<lparr>bbPreds := ps\<rparr>]
             \<and> length ps = length ?old
             \<and> (sameWeights bbs0 ?bbs \<and> d < length ?bbs \<longrightarrow>
                  (\<forall>k<length ps. (k < length ?old \<longrightarrow> initCapped cc bbs0 d (?old ! k) (ps ! k))
                                \<and> (length ?old \<le> k \<longrightarrow> ps ! k = ?old ! k))))"
      and c: "clean s'"
    from h c obtain ps where cs: "clean s"
      and p: "ewBlocks s' = ?bbs[d := (?bbs ! d)\<lparr>bbPreds := ps\<rparr>]"
      and l: "length ps = length ?old"
      and b: "sameWeights bbs0 ?bbs \<and> d < length ?bbs \<longrightarrow>
                  (\<forall>k<length ps. (k < length ?old \<longrightarrow> initCapped cc bbs0 d (?old ! k) (ps ! k)))"
      by blast
    have "list_all2 (initCapped cc bbs0 d) ?old ps"
      if "sameWeights bbs0 ?bbs" "d < length ?bbs"
      using b that l by (simp add: list_all2_conv_all_nth)
    then show "clean s
        \<and> (\<exists>ps. ewBlocks s' = ?bbs[d := (?bbs ! d)\<lparr>bbPreds := ps\<rparr>]
             \<and> length ps = length ?old
             \<and> (sameWeights bbs0 ?bbs \<and> d < length ?bbs
                 \<longrightarrow> list_all2 (initCapped cc bbs0 d) ?old ps))"
      using cs p l by blast
  qed
qed

lemma initAll_step:
  "post (allEdges (initEdgeWeight G cc) s) (\<lambda>s'. clean s' \<longrightarrow> clean s
        \<and> sameWeights (ewBlocks s) (ewBlocks s')
        \<and> (rangesOK (ewBlocks s) \<longrightarrow> allCapped cc (ewBlocks s')))"
  unfolding allEdges_def
proof (rule post_conseq [OF blocks_once [where good = clean and Inv = "sameWeights (ewBlocks s)"
          and P = "\<lambda>d b. list_all2 (initCapped cc (ewBlocks s) d) (bbPreds b)"
          and g = "edgesOfBlock (initEdgeWeight G cc)", OF initBlock_step sameWeights_preds]],
      assumption, rule impI)
  fix s'
  let ?bbs = "ewBlocks s"
  assume h: "clean s' \<longrightarrow> clean s
        \<and> length (ewBlocks s') = length ?bbs
        \<and> (sameWeights ?bbs ?bbs \<longrightarrow> sameWeights ?bbs (ewBlocks s'))
        \<and> (\<forall>d<length ?bbs. \<exists>ps. ewBlocks s' ! d = (?bbs ! d)\<lparr>bbPreds := ps\<rparr>
             \<and> length ps = length (bbPreds (?bbs ! d))
             \<and> (sameWeights ?bbs ?bbs \<and> d < length ?bbs
                  \<longrightarrow> list_all2 (initCapped cc ?bbs d) (bbPreds (?bbs ! d)) ps)
             \<and> (length ?bbs \<le> d \<longrightarrow> ps = bbPreds (?bbs ! d)))"
    and c: "clean s'"
  from h c sameWeights_refl have cs: "clean s" and l: "length (ewBlocks s') = length ?bbs"
    and sw: "sameWeights ?bbs (ewBlocks s')"
    and al: "\<forall>d<length ?bbs. \<exists>ps. ewBlocks s' ! d = (?bbs ! d)\<lparr>bbPreds := ps\<rparr>
             \<and> list_all2 (initCapped cc ?bbs d) (bbPreds (?bbs ! d)) ps"
    by blast+
  have "allCapped cc (ewBlocks s')" if r: "rangesOK ?bbs"
    unfolding allCapped_def
  proof (intro allI impI ballI)
    fix d e
    assume d: "d < length (ewBlocks s')" and e: "e \<in> set (bbPreds (ewBlocks s' ! d))"
    from al d l obtain ps where b: "ewBlocks s' ! d = (?bbs ! d)\<lparr>bbPreds := ps\<rparr>"
      and q: "list_all2 (initCapped cc ?bbs d) (bbPreds (?bbs ! d)) ps" by auto
    from e b obtain k where k: "k < length ps" "e = ps ! k"
      by (auto simp: in_set_conv_nth)
    have ic: "initCapped cc ?bbs d (bbPreds (?bbs ! d) ! k) e" and k': "k < length (bbPreds (?bbs ! d))"
      using q k by (auto simp: list_all2_conv_all_nth)
    have "edgeRangeOK (bbPreds (?bbs ! d) ! k)"
      using r d l k' by (simp add: rangesOK_def list_all_length)
    then have "edgeCapped cc ?bbs d e" using ic by (simp add: initCapped_def)
    then show "edgeCapped cc (ewBlocks s') d e"
      using edgeCapped_same [OF sw d] by simp
  qed
  then show "clean s \<and> sameWeights ?bbs (ewBlocks s') \<and> (rangesOK ?bbs \<longrightarrow> allCapped cc (ewBlocks s'))"
    using cs sw by blast
qed

subsection \<open>The result of the computation\<close>

text \<open>
  C1 (as the code has it). After \<^verbatim>\<open>fgComputeEdgeWeights\<close> has run (optimizing, with
  profile weights) on a flow graph whose edges have valid ranges, has found the profile
  data consistent and has used no slop, the blocks and their weights are as before, and
  every in-edge of every block \<open>d\<close> other than the method entry has \<open>0 \<le> min \<le> max\<close>, a
  maximum that is at most the weight of \<open>d\<close>, and a source in the graph whose weight is
  at least that maximum. No sum over the in-edges or over the out-edges bounds the weight
  of a block: the flow balance narrows an edge only when the weight of the block is at
  least the sum over the other edges, and it takes its sums and differences in float.
\<close>

theorem clean_run_caps_in_edges:
  assumes run: "fgComputeEdgeWeights True True GetSlopFraction calledCount (bbs, flags) = Inr (bbs', flags')"
    and valid: "fgHaveValidEdgeWeights flags'"
    and noslop: "\<not> fgSlopUsedInEdgeWeights flags'"
    and ranges: "rangesOK bbs"
    and d: "0 < d" "d < length bbs'"
  shows "length bbs' = length bbs
       \<and> bbWeight (bbs' ! d) = bbWeight (bbs ! d)
       \<and> list_all (\<lambda>e. 0 \<le> flEdgeWeightMin e \<and> flEdgeWeightMin e \<le> flEdgeWeightMax e
                       \<and> flEdgeWeightMax e \<le> bbWeight (bbs' ! d)
                       \<and> flBlock e < length bbs'
                       \<and> flEdgeWeightMax e \<le> bbWeight (bbs' ! flBlock e))
            (bbPreds (bbs' ! d))"
proof -
  let ?s0 = "\<lparr>ewBlocks = bbs, assignOK = True, usedSlop = False,
                  inconsistentProfileData = False, hasIncompleteEdgeWeights = False,
                  numEdges = 0, goodEdgeCountCurrent = 0, goodEdgeCountPrevious = 0\<rparr>"
  from run obtain s1 s2 where
    i: "allEdges (initEdgeWeight GetSlopFraction calledCount) ?s0 = Inr s1"
    and p: "(if inconsistentProfileData s1 then Inr s1
               else edgeWeightPasses GetSlopFraction calledCount 0 s1) = Inr s2"
    and b: "bbs' = ewBlocks s2"
    and f: "fgSlopUsedInEdgeWeights flags' = usedSlop s2"
      "fgHaveValidEdgeWeights flags' = (\<not> inconsistentProfileData s2)"
    by (auto simp: fgComputeEdgeWeights_def bindE_Inr_iff)
  have c2: "clean s2" using f valid noslop by (simp add: clean_def)
  have "\<not> inconsistentProfileData s1"
    using p c2 by (auto simp: clean_def split: if_splits)
  then have p': "edgeWeightPasses GetSlopFraction calledCount 0 s1 = Inr s2" using p by simp
  from postD [OF edgeWeightPasses_step p'] c2 have c1: "clean s1"
    and t: "tightens (ewBlocks s1) bbs'"
    unfolding b by simp_all
  have i': "sameWeights bbs (ewBlocks s1) \<and> (rangesOK bbs \<longrightarrow> allCapped calledCount (ewBlocks s1))"
    using postD [OF initAll_step i] c1 by simp
  then have sw: "sameWeights bbs (ewBlocks s1)" and ac: "allCapped calledCount (ewBlocks s1)"
    using ranges by simp_all
  have l1: "length (ewBlocks s1) = length bbs" using sw by (simp add: sameWeights_def)
  have l2: "length bbs' = length (ewBlocks s1)" using tightens_length [OF t] .
  have d1: "d < length (ewBlocks s1)" "d < length bbs" using d l1 l2 by simp_all
  have w: "bbWeight (bbs' ! d) = bbWeight (bbs ! d)"
    using tightens_static(1) [OF t d1(1)] sameWeights_nth [OF sw d1(2)] by simp
  have "allCapped calledCount bbs'" using allCapped_tightens [OF ac t] .
  then have "list_all (edgeCapped calledCount bbs' d) (bbPreds (bbs' ! d))"
    using d by (simp add: allCapped_def list_all_iff)
  then have cap: "list_all (\<lambda>e. 0 \<le> flEdgeWeightMin e \<and> flEdgeWeightMin e \<le> flEdgeWeightMax e
                       \<and> flEdgeWeightMax e \<le> bbWeight (bbs' ! d)
                       \<and> flBlock e < length bbs'
                       \<and> flEdgeWeightMax e \<le> bbWeight (bbs' ! flBlock e))
            (bbPreds (bbs' ! d))"
    using d(1) by (auto simp: list_all_iff edgeCapped_def edgeRangeOK_def bDstWeightOf_def)
  show ?thesis using l1 l2 w cap by simp
qed

lemmas edgeWeights_eval =
  fgComputeEdgeWeights_def allEdges_def edgesOfBlock_def initEdgeWeight_def
  resetUnprofiled_def initFromSource_def capByDest_def applyChecked_def leaveIfNotOK_def
  setEdgeWeightMinChecked_def setEdgeWeightMaxChecked_def assertAdjusted_def
  bDstWeightOf_def blockAt_def edgeAt_def putEdge_def hasProfileWeight_def
  reconcileEdge_def adjustPair_def checkPair_def withinSlop_def otherEdgeOf_def bbNext_def
  balanceAll_def balanceBlock_def balanceEdge_def sumWeights_def
  balanceMin_def balanceMax_def countGoodEdge_def
  mkBlock_def edgeFrom_def exactEdge_def noEdgeFlags_def solvedFlags_def
  BB_MAX_WEIGHT_def BB_ZERO_WEIGHT_def Let_def fadd_def fsub_def float32_small

theorem clean_run_caps_in_edges_witness:
  "fgComputeEdgeWeights True True (\<lambda>_ _. 0) 100 (exampleDiamond, noEdgeFlags)
     = Inr (exampleDiamondSolved, solvedFlags 4)
   \<and> rangesOK exampleDiamond
   \<and> length exampleDiamondSolved = length exampleDiamond
   \<and> bbWeight (exampleDiamondSolved ! 3) = bbWeight (exampleDiamond ! 3)
   \<and> list_all (\<lambda>e. 0 \<le> flEdgeWeightMin e \<and> flEdgeWeightMin e \<le> flEdgeWeightMax e
                   \<and> flEdgeWeightMax e \<le> bbWeight (exampleDiamondSolved ! 3)
                   \<and> flBlock e < length exampleDiamondSolved
                   \<and> flEdgeWeightMax e \<le> bbWeight (exampleDiamondSolved ! flBlock e))
        (bbPreds (exampleDiamondSolved ! 3))"
proof -
  have run: "fgComputeEdgeWeights True True (\<lambda>_ _. 0) 100 (exampleDiamond, noEdgeFlags)
     = Inr (exampleDiamondSolved, solvedFlags 4)"
    by (simp add: edgeWeights_eval exampleDiamond_def exampleDiamondSolved_def)
  have r: "rangesOK exampleDiamond"
    by (simp add: rangesOK_def edgeRangeOK_def exampleDiamond_def mkBlock_def edgeFrom_def
        BB_MAX_WEIGHT_def)
  have v: "fgHaveValidEdgeWeights (solvedFlags 4)" "\<not> fgSlopUsedInEdgeWeights (solvedFlags 4)"
    by (simp_all add: solvedFlags_def)
  have d: "0 < (3::nat)" "3 < length exampleDiamondSolved"
    by (simp_all add: exampleDiamondSolved_def)
  show ?thesis
    using clean_run_caps_in_edges [OF run v r d] run r by blast
qed

text \<open>The claim as stated fails. In the switch below every edge gets the exact weight 10,
  the profile data count as consistent and no slop is used, yet the minima into \<open>B4\<close> add
  up to 30, more than its weight 15, and the maxima out of \<open>B0\<close> add up to 30, less than
  its weight 100. In the join below the run is clean as well, because the float sum of
  the two maxima into \<open>B3\<close> is 33554440, yet the maxima add up to 33554438, less than its
  weight 33554440.\<close>

theorem edge_sums_do_not_bound_weight_counterexample:
  "fgComputeEdgeWeights True True (\<lambda>_ _. 0) 100 (exampleSwitch 100 15, noEdgeFlags)
     = Inr (exampleSwitchSolved 100 15, solvedFlags 6)
   \<and> rangesOK (exampleSwitch 100 15)
   \<and> fgHaveValidEdgeWeights (solvedFlags 6)
   \<and> \<not> fgSlopUsedInEdgeWeights (solvedFlags 6)
   \<and> bbPreds (exampleSwitchSolved 100 15 ! 4) \<noteq> []
   \<and> bbWeight (exampleSwitchSolved 100 15 ! 4) = 15
   \<and> sum_list (map flEdgeWeightMin (bbPreds (exampleSwitchSolved 100 15 ! 4))) = 30
   \<and> \<not> sum_list (map flEdgeWeightMin (bbPreds (exampleSwitchSolved 100 15 ! 4)))
         \<le> bbWeight (exampleSwitchSolved 100 15 ! 4)
   \<and> bbJumpKind (exampleSwitchSolved 100 15 ! 0) = BBJ_SWITCH
   \<and> bbWeight (exampleSwitchSolved 100 15 ! 0) = 100
   \<and> sum_list (map flEdgeWeightMax (outEdges (exampleSwitchSolved 100 15) 0)) = 30
   \<and> \<not> bbWeight (exampleSwitchSolved 100 15 ! 0)
         \<le> sum_list (map flEdgeWeightMax (outEdges (exampleSwitchSolved 100 15) 0))
   \<and> fgComputeEdgeWeights True True (\<lambda>_ _. 0) 33554440 (exampleJoin, noEdgeFlags)
     = Inr (exampleJoinSolved, solvedFlags 4)
   \<and> rangesOK exampleJoin
   \<and> bbWeight (exampleJoinSolved ! 3) = 33554440
   \<and> sum_list (map flEdgeWeightMax (bbPreds (exampleJoinSolved ! 3))) = 33554438
   \<and> \<not> bbWeight (exampleJoinSolved ! 3)
         \<le> sum_list (map flEdgeWeightMax (bbPreds (exampleJoinSolved ! 3)))"
proof -
  have a: "fgComputeEdgeWeights True True (\<lambda>_ _. 0) 100 (exampleSwitch 100 15, noEdgeFlags)
     = Inr (exampleSwitchSolved 100 15, solvedFlags 6)"
    by (simp add: edgeWeights_eval exampleSwitch_def exampleSwitchSolved_def)
  have b: "fgComputeEdgeWeights True True (\<lambda>_ _. 0) 33554440 (exampleJoin, noEdgeFlags)
     = Inr (exampleJoinSolved, solvedFlags 4)"
    by (simp add: edgeWeights_eval float32_large exampleJoin_def exampleJoinSolved_def)
  have c: "rangesOK (exampleSwitch 100 15)" "rangesOK exampleJoin"
    by (simp_all add: rangesOK_def edgeRangeOK_def exampleSwitch_def exampleJoin_def mkBlock_def
        edgeFrom_def BB_MAX_WEIGHT_def)
  show ?thesis
    using a b c
    by (simp add: exampleSwitchSolved_def exampleJoinSolved_def solvedFlags_def mkBlock_def
        exactEdge_def outEdges_def)
qed


end
